theory Spec2Isabelle
  imports Complex_Main "HOL-Library.Multiset" "HOL-Library.Log_Nat"
begin

section \<open>Conventions\<close>

text \<open>
  The development embeds the session orchestration code of the web explorer: the proxy pool
  (\<^verbatim>\<open>src/proxy\<close>), the randomisation helpers (\<^verbatim>\<open>src/humanizer\<close>), the action handlers
  (\<^verbatim>\<open>src/actions\<close>), the action scheduler (\<^verbatim>\<open>src/explorer/loop.ts\<close>) and the recovery
  protocol (\<^verbatim>\<open>src/explorer/index.ts\<close>, \<^verbatim>\<open>recovery.ts\<close>).

  \<^item> A JavaScript string is a \<open>string\<close>; a character stands for one code unit, and the
    model covers code units below 256.
  \<^item> A thrown exception is a value \<open>Error msg\<close>; code that may throw returns \<open>exn + 'a\<close>.
  \<^item> A number is the rational value of a finite double. A decimal literal of the source
    (\<^verbatim>\<open>0.37\<close>, \<^verbatim>\<open>0.1\<close>, ...) is the double nearest to the decimal, a product of doubles is
    rounded to the nearest double (section ``Doubles''), comparisons are exact. Sums,
    differences and products of the small integers of the program are exact.
  \<^item> A value of \<^verbatim>\<open>Math.random()\<close> is a double in \<open>[0, 1)\<close>.
  \<^item> The logger only prints, and \<^verbatim>\<open>sleep\<close> only lets time pass: neither is part of the state.
\<close>

datatype exn = Error string

subsection \<open>Numbers as text\<close>

definition digit_char :: "nat \<Rightarrow> char" where
  "digit_char d = ''0123456789'' ! d"

function show_nat :: "nat \<Rightarrow> string" where
  "show_nat n = (if n < 10 then [digit_char n] else show_nat (n div 10) @ [digit_char (n mod 10)])"
  by pat_completeness auto
termination
  by (relation "measure id") auto

declare show_nat.simps [simp del]

text \<open>An integer inside a template literal: decimal digits, with a minus sign when negative.\<close>

definition show_int :: "int \<Rightarrow> string" where
  "show_int i = (if i < 0 then CHR ''-'' # show_nat (nat (- i)) else show_nat (nat i))"

text \<open>\<^verbatim>\<open>s.startsWith(p)\<close>.\<close>

definition startsWith :: "string \<Rightarrow> string \<Rightarrow> bool" where
  "startsWith s p = (take (length p) s = p)"

section \<open>Proxy pool (src/proxy)\<close>

text \<open>
  \<^verbatim>\<open>ProxyEntry\<close> of \<^verbatim>\<open>proxy/types.ts\<close>. The field \<open>server\<close> is the canonical address
  \<^verbatim>\<open>protocol://host:port\<close>; the optional credentials are \<open>None\<close> when the property is absent.
\<close>

record ProxyEntry =
  server :: string
  protocol :: string
  host :: string
  port :: int
  username :: "string option"
  password :: "string option"

text \<open>
  The two private fields of the class \<^verbatim>\<open>ProxyManager\<close> that its methods read and write.
\<close>

record ProxyManager =
  proxies :: "ProxyEntry list"
  currentIndex :: nat

text \<open>The state the constructor leaves: \<^verbatim>\<open>proxies = []\<close>, \<^verbatim>\<open>currentIndex = 0\<close>.\<close>

definition newProxyManager :: ProxyManager where
  "newProxyManager = \<lparr>proxies = [], currentIndex = 0\<rparr>"

text \<open>
  \<^verbatim>\<open>getNext()\<close>: \<^verbatim>\<open>undefined\<close> is \<open>None\<close>. A JavaScript array read past the end
  gives \<^verbatim>\<open>undefined\<close> and does not throw, which is written out; the cursor is advanced
  modulo the length in either case.
\<close>

definition getNext :: "ProxyManager \<Rightarrow> ProxyEntry option \<times> ProxyManager" where
  "getNext m =
     (if length (proxies m) = 0 then (None, m)
      else
        (let proxy = (if currentIndex m < length (proxies m)
                      then Some (proxies m ! currentIndex m) else None)
         in (proxy, m\<lparr>currentIndex := (currentIndex m + 1) mod length (proxies m)\<rparr>)))"

text \<open>\<^verbatim>\<open>markDead(proxy)\<close>: removes every entry with the same \<open>server\<close> string.\<close>

definition markDead :: "ProxyEntry \<Rightarrow> ProxyManager \<Rightarrow> ProxyManager" where
  "markDead proxy m =
     (let ps = filter (\<lambda>p. server p \<noteq> server proxy) (proxies m)
      in m\<lparr>proxies := ps,
           currentIndex := (if currentIndex m \<ge> length ps then 0 else currentIndex m)\<rparr>)"


definition hasProxies :: "ProxyManager \<Rightarrow> bool" where
  "hasProxies m = (length (proxies m) > 0)"

text \<open>\<open>n\<close> consecutive calls of \<^verbatim>\<open>getNext()\<close>, with the values they return in call order.\<close>

fun getNextN :: "nat \<Rightarrow> ProxyManager \<Rightarrow> ProxyEntry option list \<times> ProxyManager" where
  "getNextN 0 m = ([], m)"
| "getNextN (Suc n) m =
     (case getNext m of (r, m') \<Rightarrow> (case getNextN n m' of (rs, m'') \<Rightarrow> (r # rs, m'')))"

text \<open>A caller's operations on the pool, and a sequence of them run in order.\<close>

datatype pool_op = OpGetNext | OpMarkDead ProxyEntry

fun apply_pool_op :: "pool_op \<Rightarrow> ProxyManager \<Rightarrow> ProxyManager" where
  "apply_pool_op OpGetNext m = snd (getNext m)"
| "apply_pool_op (OpMarkDead p) m = markDead p m"

fun run_pool_ops :: "pool_op list \<Rightarrow> ProxyManager \<Rightarrow> ProxyManager" where
  "run_pool_ops [] m = m"
| "run_pool_ops (x # xs) m = run_pool_ops xs (apply_pool_op x m)"

text \<open>The data model's invariant: the cursor indexes an entry, or the pool is empty.\<close>

definition cursor_ok :: "ProxyManager \<Rightarrow> bool" where
  "cursor_ok m = (currentIndex m < length (proxies m) \<or> proxies m = [])"

section \<open>Doubles\<close>

text \<open>
  The finite values of an IEEE 754 binary64 number are the rationals \<open>n * 2\<^sup>c\<close> with
  \<open>\<bar>n\<bar> < 2\<^sup>5\<^sup>3\<close> and \<open>-1074 \<le> c \<le> 971\<close>. \<open>rne\<close> rounds a rational to the nearest integer, a tie to
  the even one. \<open>binade x\<close> is the exponent \<open>e\<close> with \<open>2\<^sup>e \<le> x < 2\<^sup>e\<^sup>+\<^sup>1\<close> of a positive \<open>x\<close>,
  computed from the bit lengths of numerator and denominator. \<open>quantum x\<close> is the distance
  between neighbouring doubles around \<open>x\<close>: \<open>2\<^sup>e\<^sup>-\<^sup>5\<^sup>2\<close>, and \<open>2\<^sup>-\<^sup>1\<^sup>0\<^sup>7\<^sup>4\<close> in the subnormal range.
  \<open>round_double\<close> is rounding to the nearest double, ties to even, which is what a decimal
  literal and every arithmetic operation of the language do. Overflow to infinity (values
  from \<open>2\<^sup>1\<^sup>0\<^sup>2\<^sup>4\<close> on) is not part of the model: the numbers of the program are draws in
  \<open>[0, 1)\<close> and their products with array lengths and small constants.
\<close>

definition rne :: "rat \<Rightarrow> int" where
  "rne y =
     (let f = \<lfloor>y\<rfloor>; d = y - of_int f
      in if d < 1 / 2 then f else if 1 / 2 < d then f + 1 else if even f then f else f + 1)"

definition binade :: "rat \<Rightarrow> int" where
  "binade x =
     (case quotient_of x of (a, b) \<Rightarrow>
        (let d = bitlen a - bitlen b in if 2 powi d \<le> x then d else d - 1))"

definition quantum :: "rat \<Rightarrow> rat" where
  "quantum x = 2 powi (max (binade \<bar>x\<bar>) (- 1022) - 52)"

definition round_double :: "rat \<Rightarrow> rat" where
  "round_double x = (if x = 0 then 0 else of_int (rne (x / quantum x)) * quantum x)"

text \<open>A rational is a double when rounding leaves it as it is and it is in the finite range.\<close>

definition is_double :: "rat \<Rightarrow> bool" where
  "is_double x = (round_double x = x \<and> \<bar>x\<bar> < 2 powi 1024)"

text \<open>The value of a decimal literal of the source, given as the fraction it is written as.\<close>

definition lit :: "rat \<Rightarrow> rat" where
  "lit d = round_double d"

text \<open>Half the least subnormal, the largest rounding error next to zero.\<close>

definition tiny :: rat where
  "tiny = 2 powi (- 1075)"

subsection \<open>Loading the proxy file (\<^verbatim>\<open>proxy/loader.ts\<close>)\<close>

text \<open>
  What the platform provides and the repository only calls: the WHATWG URL parser
  (\<^verbatim>\<open>new URL(s)\<close>, \<open>None\<close> when it throws) with the properties the code reads, and
  \<^verbatim>\<open>decodeURIComponent\<close> (\<open>None\<close> when it throws). Both are parameters of the model.
\<close>

record URL =
  url_protocol :: string
  url_hostname :: string
  url_port :: string
  url_username :: string
  url_password :: string
  url_origin :: string
  url_pathname :: string
  url_search :: string

record platform =
  parseURL :: "string \<Rightarrow> URL option"
  decodeURIComponent :: "string \<Rightarrow> string option"

text \<open>
  The file system as the loader sees it, for a path already resolved (\<^verbatim>\<open>path.resolve\<close>):
  \<^verbatim>\<open>fs.existsSync\<close> is false (\<open>Absent\<close>); or the path exists and \<^verbatim>\<open>fs.readFileSync\<close> throws
  (\<open>Unreadable\<close> with the error: a directory, a file without read permission); or the path
  exists and \<^verbatim>\<open>fs.readFileSync\<close> returns the text of the file (\<open>Readable\<close>).
\<close>

datatype file_entry = Absent | Unreadable exn | Readable string

type_synonym filesystem = "string \<Rightarrow> file_entry"

text \<open>White space and line terminators of \<^verbatim>\<open>String.prototype.trim\<close> among code units below 256.\<close>

definition js_whitespace :: "char \<Rightarrow> bool" where
  "js_whitespace c = ((of_char c :: nat) \<in> {9, 10, 11, 12, 13, 32, 160})"

definition trim :: "string \<Rightarrow> string" where
  "trim s = rev (dropWhile js_whitespace (rev (dropWhile js_whitespace s)))"

text \<open>
  \<^verbatim>\<open>content.split(/\r?\n/)\<close>: a line feed, with the carriage return just before it when
  there is one, separates two pieces; the empty text gives one empty piece.
\<close>

fun split_lines_from :: "string \<Rightarrow> string \<Rightarrow> string list" where
  "split_lines_from cur [] = [rev cur]"
| "split_lines_from cur (c # cs) =
     (if c = CHR 0x0A then rev cur # split_lines_from [] cs
      else if c = CHR 0x0D \<and> cs \<noteq> [] \<and> hd cs = CHR 0x0A then rev cur # split_lines_from [] (tl cs)
      else split_lines_from (c # cur) cs)"

definition split_lines :: "string \<Rightarrow> string list" where
  "split_lines content = split_lines_from [] content"

text \<open>\<^verbatim>\<open>s.replace(':', '')\<close>: the first occurrence only.\<close>

fun remove_first :: "char \<Rightarrow> string \<Rightarrow> string" where
  "remove_first a [] = []"
| "remove_first a (c # cs) = (if c = a then cs else c # remove_first a cs)"

definition is_digit :: "char \<Rightarrow> bool" where
  "is_digit c = (48 \<le> (of_char c :: nat) \<and> (of_char c :: nat) \<le> 57)"

text \<open>
  \<^verbatim>\<open>parseInt(s, 10)\<close>: leading white space, an optional sign, then the longest run of
  digits; \<open>None\<close> is \<^verbatim>\<open>NaN\<close> (no digit).
\<close>

definition parseInt10 :: "string \<Rightarrow> int option" where
  "parseInt10 s =
     (let t = dropWhile js_whitespace s;
          neg = (t \<noteq> [] \<and> hd t = CHR ''-'');
          u = (if t \<noteq> [] \<and> (hd t = CHR ''-'' \<or> hd t = CHR ''+'') then tl t else t);
          ds = takeWhile is_digit u
      in if ds = [] then None
         else Some ((if neg then - 1 else 1) *
                    int (foldl (\<lambda>a c. 10 * a + ((of_char c :: nat) - 48)) 0 ds)))"

text \<open>
  \<^verbatim>\<open>parseProxyLine\<close>. \<^verbatim>\<open>!host\<close> holds for the empty string, \<^verbatim>\<open>!port\<close> for \<^verbatim>\<open>NaN\<close> and for 0.
\<close>

definition parseProxyLine :: "platform \<Rightarrow> string \<Rightarrow> exn + ProxyEntry" where
  "parseProxyLine plat line =
     (case parseURL plat line of
        None \<Rightarrow> Inl (Error ''Invalid URL'')
      | Some url \<Rightarrow>
          (let protocol = remove_first (CHR '':'') (url_protocol url);
               host = url_hostname url;
               port = parseInt10 (url_port url)
           in case port of
                None \<Rightarrow> Inl (Error (''Invalid proxy: '' @ line))
              | Some pt \<Rightarrow>
                  if host = [] \<or> pt = 0 then Inl (Error (''Invalid proxy: '' @ line))
                  else
                    (let entry = \<lparr>server = protocol @ ''://'' @ host @ '':'' @ show_int pt,
                                  protocol = protocol, host = host, port = pt,
                                  username = None, password = None\<rparr>
                     in case (if url_username url \<noteq> []
                              then map_option (\<lambda>u. entry\<lparr>username := Some u\<rparr>)
                                     (decodeURIComponent plat (url_username url))
                              else Some entry) of
                          None \<Rightarrow> Inl (Error ''URI malformed'')
                        | Some entry1 \<Rightarrow>
                            (case (if url_password url \<noteq> []
                                   then map_option (\<lambda>p. entry1\<lparr>password := Some p\<rparr>)
                                          (decodeURIComponent plat (url_password url))
                                   else Some entry1) of
                               None \<Rightarrow> Inl (Error ''URI malformed'')
                             | Some entry2 \<Rightarrow> Inr entry2))))"

text \<open>
  The loop of \<^verbatim>\<open>loadProxies\<close> over the lines: blank lines and comments are skipped, a line
  whose parsing throws is skipped with a warning, every other line is pushed.
\<close>

fun load_lines :: "platform \<Rightarrow> string list \<Rightarrow> ProxyEntry list \<Rightarrow> ProxyEntry list" where
  "load_lines plat [] acc = acc"
| "load_lines plat (rawLine # rest) acc =
     (let line = trim rawLine
      in if line = [] \<or> startsWith line ''#'' then load_lines plat rest acc
         else (case parseProxyLine plat line of
                 Inr parsed \<Rightarrow> load_lines plat rest (acc @ [parsed])
               | Inl e \<Rightarrow> load_lines plat rest acc))"

text \<open>
  \<^verbatim>\<open>loadProxies\<close>: the existence test throws its own error; the read that follows is not
  inside a \<^verbatim>\<open>try\<close>, so its error is thrown on.
\<close>

definition loadProxies :: "filesystem \<Rightarrow> platform \<Rightarrow> string \<Rightarrow> exn + ProxyEntry list" where
  "loadProxies fs plat filePath =
     (case fs filePath of
        Absent \<Rightarrow> Inl (Error (''Proxies file not found: '' @ filePath))
      | Unreadable e \<Rightarrow> Inl e
      | Readable content \<Rightarrow> Inr (load_lines plat (split_lines content) []))"

subsection \<open>Health check (\<^verbatim>\<open>proxy/checker.ts\<close>)\<close>

text \<open>
  \<^verbatim>\<open>checkProxy\<close> launches a browser through the proxy and catches every failure: it returns
  a boolean and never throws. Its verdict is a parameter \<open>check\<close> of the model.
  The loop \<^verbatim>\<open>for (i = 0; i < proxies.length; i += concurrency)\<close> cuts the list into chunks.
  With \<^verbatim>\<open>concurrency = 0\<close> and a non-empty list the loop never ends: \<open>chunks\<close> is only
  used for a positive size, and \<open>filterWorkingProxies\<close> returns \<open>None\<close> for that case.
\<close>

function chunks :: "nat \<Rightarrow> 'a list \<Rightarrow> 'a list list" where
  "chunks c xs = (if c = 0 \<or> xs = [] then [] else take c xs # chunks c (drop c xs))"
  by pat_completeness auto
termination
  by (relation "measure (\<lambda>(c, xs). length xs)") auto

declare chunks.simps [simp del]

definition filterWorkingProxies ::
  "(ProxyEntry \<Rightarrow> bool) \<Rightarrow> nat \<Rightarrow> ProxyEntry list \<Rightarrow> ProxyEntry list option" where
  "filterWorkingProxies check concurrency ps =
     (if concurrency = 0 \<and> ps \<noteq> [] then None
      else Some (concat (map (filter check) (chunks concurrency ps))))"

text \<open>
  \<^verbatim>\<open>ProxyManager.initialize\<close>. It calls \<^verbatim>\<open>filterWorkingProxies\<close> with the default
  concurrency 3. A call that returns gives \<open>Some\<close> of the exception thrown, if any, and
  of the manager as the call leaves it (the field \<open>proxies\<close> is assigned before the second
  \<^verbatim>\<open>throw\<close>).
\<close>

definition initialize ::
  "filesystem \<Rightarrow> platform \<Rightarrow> (ProxyEntry \<Rightarrow> bool) \<Rightarrow> string \<Rightarrow> ProxyManager
     \<Rightarrow> (exn option \<times> ProxyManager) option" where
  "initialize fs plat check filePath m =
     (case loadProxies fs plat filePath of
        Inl e \<Rightarrow> Some (Some e, m)
      | Inr allProxies \<Rightarrow>
          if length allProxies = 0 then Some (None, m)
          else
            map_option
              (\<lambda>working.
                 (let m' = m\<lparr>proxies := working\<rparr>
                  in if length working = 0
                     then (Some (Error ''No working proxies found! All proxies failed health check.''), m')
                     else (None, m')))
              (filterWorkingProxies check 3 allProxies))"

text \<open>The lines the loader skips without trying to parse them: blank lines and comments.\<close>

definition blank_or_comment :: "string \<Rightarrow> bool" where
  "blank_or_comment rawLine = (trim rawLine = [] \<or> startsWith (trim rawLine) ''#'')"

section \<open>Effects: state, exceptions, randomness\<close>

text \<open>
  An \<^verbatim>\<open>async\<close> function that reads and changes a state \<open>'s\<close> and may throw: it returns what
  it computed, or the exception, together with the state as it left it.
\<close>

type_synonym ('a, 's) act = "'s \<Rightarrow> (exn + 'a) \<times> 's"

definition ret :: "'a \<Rightarrow> ('a, 's) act" where
  "ret a = (\<lambda>s. (Inr a, s))"

definition throw :: "exn \<Rightarrow> ('a, 's) act" where
  "throw e = (\<lambda>s. (Inl e, s))"

text \<open>Sequencing: the rest is skipped when the first part throws.\<close>

definition bnd :: "('a, 's) act \<Rightarrow> ('a \<Rightarrow> ('b, 's) act) \<Rightarrow> ('b, 's) act" where
  "bnd m f = (\<lambda>s. case m s of (Inl e, s') \<Rightarrow> (Inl e, s') | (Inr a, s') \<Rightarrow> f a s')"

text \<open>\<^verbatim>\<open>try { m } catch (e) { h e }\<close>: the handler runs in the state the throw left.\<close>

definition try_catch :: "('a, 's) act \<Rightarrow> (exn \<Rightarrow> ('a, 's) act) \<Rightarrow> ('a, 's) act" where
  "try_catch m h = (\<lambda>s. case m s of (Inl e, s') \<Rightarrow> h e s' | (Inr a, s') \<Rightarrow> (Inr a, s'))"

text \<open>A call returns normally when it does not end in an exception.\<close>

definition returns_normally :: "('a, 's) act \<Rightarrow> 's \<Rightarrow> bool" where
  "returns_normally m s = (case fst (m s) of Inl e \<Rightarrow> False | Inr a \<Rightarrow> True)"

text \<open>
  What an action handler can touch: the browser page (of a type \<open>'p\<close> the model leaves
  open) and the process-wide random source, of which the state keeps the number of draws made.
  The source itself is a sequence \<open>rnd\<close>: \<open>rnd n\<close> is the value of the \<open>n\<close>-th call of
  \<^verbatim>\<open>Math.random()\<close>, which the platform promises to be a double in \<open>[0, 1)\<close>
  (\<open>unit_double\<close>); \<open>unit_interval\<close> is the interval alone.
\<close>

record 'p world =
  page :: 'p
  draws :: nat

definition unit_interval :: "rat \<Rightarrow> bool" where
  "unit_interval r = (0 \<le> r \<and> r < 1)"

definition unit_double :: "rat \<Rightarrow> bool" where
  "unit_double r = (is_double r \<and> 0 \<le> r \<and> r < 1)"

definition random :: "(nat \<Rightarrow> rat) \<Rightarrow> (rat, 'p world) act" where
  "random rnd = (\<lambda>w. (Inr (rnd (draws w)), w\<lparr>draws := draws w + 1\<rparr>))"

text \<open>An operation on the page alone, run in the world.\<close>

definition on_page :: "('a, 'p) act \<Rightarrow> ('a, 'p world) act" where
  "on_page m = (\<lambda>w. case m (page w) of (r, p') \<Rightarrow> (r, w\<lparr>page := p'\<rparr>))"

subsection \<open>Humanizer (\<^verbatim>\<open>src/humanizer\<close>)\<close>

text \<open>
  \<^verbatim>\<open>randomInt(min, max) = Math.floor(Math.random() * (max - min + 1)) + min\<close>. The product
  of the draw and the integer \<^verbatim>\<open>max - min + 1\<close> is rounded to a double before
  \<^verbatim>\<open>Math.floor\<close>; \<^verbatim>\<open>max - min + 1\<close>, the floor and the last sum are exact for the integers
  the program passes (below \<open>2\<^sup>5\<^sup>3\<close>).
\<close>

definition randomInt_of :: "rat \<Rightarrow> int \<Rightarrow> int \<Rightarrow> int" where
  "randomInt_of r lo hi = \<lfloor>round_double (r * of_int (hi - lo + 1))\<rfloor> + lo"

definition randomInt :: "(nat \<Rightarrow> rat) \<Rightarrow> int \<Rightarrow> int \<Rightarrow> (int, 'p world) act" where
  "randomInt rnd lo hi = bnd (random rnd) (\<lambda>r. ret (randomInt_of r lo hi))"

text \<open>
  \<^verbatim>\<open>gaussianRandom\<close> makes two draws; the helpers built on it (\<^verbatim>\<open>humanDelay\<close>,
  \<^verbatim>\<open>humanTypingDelay\<close>, \<^verbatim>\<open>thinkingPause\<close>) sleep for the sampled time or hand it to the
  keyboard as a key delay, so in this state they are the two draws and nothing else.
  \<^verbatim>\<open>microPause\<close> sleeps for \<^verbatim>\<open>randomInt(200, 800)\<close>: one draw.
\<close>

definition gaussianDraws :: "(nat \<Rightarrow> rat) \<Rightarrow> (rat \<times> rat, 'p world) act" where
  "gaussianDraws rnd = bnd (random rnd) (\<lambda>u1. bnd (random rnd) (\<lambda>u2. ret (u1, u2)))"

definition humanDelay :: "(nat \<Rightarrow> rat) \<Rightarrow> (unit, 'p world) act" where
  "humanDelay rnd = bnd (gaussianDraws rnd) (\<lambda>_. ret ())"

definition humanTypingDelay :: "(nat \<Rightarrow> rat) \<Rightarrow> (unit, 'p world) act" where
  "humanTypingDelay rnd = bnd (gaussianDraws rnd) (\<lambda>_. ret ())"

definition microPause :: "(nat \<Rightarrow> rat) \<Rightarrow> (unit, 'p world) act" where
  "microPause rnd = bnd (randomInt rnd 200 800) (\<lambda>_. ret ())"

text \<open>
  \<^verbatim>\<open>pickRandom(arr)\<close>: \<^verbatim>\<open>undefined\<close> (\<open>None\<close>) for the empty array, without a draw;
  otherwise \<^verbatim>\<open>arr[randomInt(0, arr.length - 1)]\<close>, which is \<^verbatim>\<open>undefined\<close> when the index
  is not one of the array.
\<close>

definition js_index :: "'a list \<Rightarrow> int \<Rightarrow> 'a option" where
  "js_index arr k = (if 0 \<le> k \<and> k < int (length arr) then Some (arr ! nat k) else None)"

definition pickRandom :: "(nat \<Rightarrow> rat) \<Rightarrow> 'a list \<Rightarrow> ('a option, 'p world) act" where
  "pickRandom rnd arr =
     (if length arr = 0 then ret None
      else bnd (randomInt rnd 0 (int (length arr) - 1)) (\<lambda>k. ret (js_index arr k)))"

text \<open>
  \<^verbatim>\<open>shuffle(arr)\<close> (Fisher-Yates on a copy). \<open>shuffle_from i\<close> is the loop from index \<open>i\<close>
  down to 1; each round draws \<^verbatim>\<open>j = randomInt(0, i)\<close> and swaps the entries \<open>i\<close> and \<open>j\<close>.
  A draw that is a double in \<open>[0, 1)\<close> gives \<open>0 \<le> j \<le> i\<close>; for any other index the model
  leaves the list as it is.
\<close>

definition swap_at :: "'a list \<Rightarrow> nat \<Rightarrow> int \<Rightarrow> 'a list" where
  "swap_at xs i j =
     (if 0 \<le> j \<and> j \<le> int i \<and> i < length xs then xs[i := xs ! nat j, nat j := xs ! i] else xs)"

fun shuffle_from :: "(nat \<Rightarrow> rat) \<Rightarrow> nat \<Rightarrow> 'a list \<Rightarrow> ('a list, 'p world) act" where
  "shuffle_from rnd 0 xs = ret xs"
| "shuffle_from rnd (Suc i) xs =
     bnd (randomInt rnd 0 (int (Suc i))) (\<lambda>j. shuffle_from rnd i (swap_at xs (Suc i) j))"

definition shuffle :: "(nat \<Rightarrow> rat) \<Rightarrow> 'a list \<Rightarrow> ('a list, 'p world) act" where
  "shuffle rnd arr = shuffle_from rnd (length arr - 1) arr"

section \<open>Action handlers (\<^verbatim>\<open>src/actions\<close>)\<close>

text \<open>
  The capability interface of the page-automation driver, as the handlers call it. Every
  operation but \<^verbatim>\<open>page.url()\<close> is asynchronous and may throw (no element, stale handle,
  timeout, closed page). A locator is named by its selector and an index (\<^verbatim>\<open>.first()\<close> is
  index 0, \<^verbatim>\<open>.nth(i)\<close> is index \<open>i\<close>). Option arguments that only set a timeout, a delay
  or a pixel offset are left out. \<open>anchor_hrefs\<close> is the script of \<^verbatim>\<open>collectInternalLinks\<close>
  reading \<^verbatim>\<open>href\<close> of every \<^verbatim>\<open>a[href]\<close> in document order; it reads the page and does not
  change it.

  Three handlers are kept opaque, as the block of code they are in the source:
  \<open>click_body\<close>, \<open>media_body\<close> and \<open>zoom_body\<close> are the bodies of the \<^verbatim>\<open>try\<close> blocks of
  \<^verbatim>\<open>humanClick\<close>, \<^verbatim>\<open>humanMedia\<close> and \<^verbatim>\<open>humanZoom\<close>; \<open>idle_body\<close> is the body of
  \<^verbatim>\<open>humanIdle\<close>, which has no \<^verbatim>\<open>try\<close>.
\<close>

record 'p page_api =
  page_url :: "'p \<Rightarrow> string"
  locator_count :: "string \<Rightarrow> (int, 'p) act"
  nth_isVisible :: "string \<Rightarrow> int \<Rightarrow> (bool, 'p) act"
  nth_boundingBox :: "string \<Rightarrow> int \<Rightarrow> ((rat \<times> rat) option, 'p) act"
  nth_textContent :: "string \<Rightarrow> int \<Rightarrow> (string option, 'p) act"
  nth_hover :: "string \<Rightarrow> int \<Rightarrow> (unit, 'p) act"
  nth_click :: "string \<Rightarrow> int \<Rightarrow> (unit, 'p) act"
  keyboard_type :: "string \<Rightarrow> (unit, 'p) act"
  keyboard_press :: "string \<Rightarrow> (unit, 'p) act"
  mouse_wheel :: "int \<Rightarrow> (unit, 'p) act"
  history_length :: "(int, 'p) act"
  goBack :: "(unit, 'p) act"
  goForward :: "(unit, 'p) act"
  page_goto :: "string \<Rightarrow> (unit, 'p) act"
  anchor_hrefs :: "'p \<Rightarrow> exn + string list"
  click_body :: "(string option, 'p world) act"
  media_body :: "(string option, 'p world) act"
  zoom_body :: "(string option, 'p world) act"
  idle_body :: "(string, 'p world) act"

subsection \<open>\<^verbatim>\<open>humanScroll\<close> (\<^verbatim>\<open>actions/scroll.ts\<close>)\<close>

text \<open>\<^verbatim>\<open>new URL(page.url()).pathname\<close>, computed for the debug line; the constructor may throw.\<close>

definition currentPathname :: "'p page_api \<Rightarrow> platform \<Rightarrow> (string, 'p world) act" where
  "currentPathname api plat =
     (\<lambda>w. case parseURL plat (page_url api (page w)) of
             None \<Rightarrow> (Inl (Error ''Invalid URL''), w)
           | Some u \<Rightarrow> (Inr (url_pathname u), w))"

fun scrollLoop ::
  "'p page_api \<Rightarrow> platform \<Rightarrow> (nat \<Rightarrow> rat) \<Rightarrow> nat \<Rightarrow> int \<Rightarrow> (int, 'p world) act" where
  "scrollLoop api plat rnd 0 totalScrolled = ret totalScrolled"
| "scrollLoop api plat rnd (Suc k) totalScrolled =
     bnd (random rnd) (\<lambda>r.
     bnd (randomInt rnd 100 500) (\<lambda>a.
     bnd (on_page (mouse_wheel api (a * (if r > lit (15 / 100) then 1 else - 1)))) (\<lambda>_.
     bnd (currentPathname api plat) (\<lambda>_.
     bnd (humanDelay rnd) (\<lambda>_.
     bnd (random rnd) (\<lambda>r2.
     bnd (if r2 < lit (2 / 10) then humanDelay rnd else ret ()) (\<lambda>_.
     scrollLoop api plat rnd k
       (totalScrolled + a * (if r > lit (15 / 100) then 1 else - 1)))))))))"

definition humanScroll :: "'p page_api \<Rightarrow> platform \<Rightarrow> (nat \<Rightarrow> rat) \<Rightarrow> (int, 'p world) act" where
  "humanScroll api plat rnd =
     bnd (randomInt rnd 3 8) (\<lambda>scrollSteps. scrollLoop api plat rnd (nat scrollSteps) 0)"

subsection \<open>\<^verbatim>\<open>humanHover\<close> (\<^verbatim>\<open>actions/hover.ts\<close>)\<close>

definition HOVERABLE_SELECTORS :: "string list" where
  "HOVERABLE_SELECTORS =
     [''img'', ''a'', ''button'', ''[role=`button`]'', ''.card'', ''article'', ''nav a'', ''h2'', ''h3'']"

text \<open>
  The nine selectors of \<^verbatim>\<open>HOVERABLE_SELECTORS\<close> (quotation marks written as backquotes).
  The local counter \<^verbatim>\<open>actualHovers\<close> is kept beside the world, so that an exception thrown
  after \<^verbatim>\<open>actualHovers++\<close> leaves the increment in place, as in the source.
\<close>

definition beside_counter :: "('a, 'p world) act \<Rightarrow> ('a, nat \<times> 'p world) act" where
  "beside_counter m = (\<lambda>(n, w). case m w of (r, w') \<Rightarrow> (r, (n, w')))"

definition increment_counter :: "(unit, nat \<times> 'p world) act" where
  "increment_counter = (\<lambda>(n, w). (Inr (), (n + 1, w)))"

text \<open>The body of the \<^verbatim>\<open>try\<close> block; a \<^verbatim>\<open>continue\<close> ends it.\<close>

definition hoverBody :: "'p page_api \<Rightarrow> (nat \<Rightarrow> rat) \<Rightarrow> string \<Rightarrow> (unit, nat \<times> 'p world) act" where
  "hoverBody api rnd selector =
     bnd (beside_counter (on_page (locator_count api selector))) (\<lambda>count.
       if count = 0 then ret ()
       else
     bnd (beside_counter (randomInt rnd 0 (min (count - 1) 10))) (\<lambda>index.
     bnd (beside_counter (on_page (nth_isVisible api selector index))) (\<lambda>isVisible.
       if \<not> isVisible then ret ()
       else
     bnd (beside_counter (on_page (nth_boundingBox api selector index))) (\<lambda>box.
       if (case box of None \<Rightarrow> True | Some (width, height) \<Rightarrow> width < 5 \<or> height < 5) then ret ()
       else
     bnd (beside_counter (on_page (nth_hover api selector index))) (\<lambda>_.
     bnd increment_counter (\<lambda>_.
     bnd (beside_counter (on_page (nth_textContent api selector index))) (\<lambda>_.
     beside_counter (humanDelay rnd))))))))"

fun hoverLoop :: "'p page_api \<Rightarrow> (nat \<Rightarrow> rat) \<Rightarrow> nat \<Rightarrow> (unit, nat \<times> 'p world) act" where
  "hoverLoop api rnd 0 = ret ()"
| "hoverLoop api rnd (Suc k) =
     bnd (beside_counter (pickRandom rnd HOVERABLE_SELECTORS)) (\<lambda>selector.
     bnd (case selector of
            None \<Rightarrow> ret ()
          | Some sel \<Rightarrow>
              if sel = [] then ret ()
              else try_catch (hoverBody api rnd sel) (\<lambda>e. ret ())) (\<lambda>_.
     hoverLoop api rnd k))"

definition humanHover :: "'p page_api \<Rightarrow> (nat \<Rightarrow> rat) \<Rightarrow> (int, 'p world) act" where
  "humanHover api rnd =
     bnd (randomInt rnd 1 4) (\<lambda>hoverCount.
       (\<lambda>w. case hoverLoop api rnd (nat hoverCount) (0, w) of
               (Inl e, (actualHovers, w')) \<Rightarrow> (Inl e, w')
             | (Inr _, (actualHovers, w')) \<Rightarrow> (Inr (int actualHovers), w')))"

subsection \<open>\<^verbatim>\<open>humanType\<close> (\<^verbatim>\<open>actions/type.ts\<close>)\<close>

definition SEARCH_TERMS :: "string list" where
  "SEARCH_TERMS =
     [''about'', ''contact'', ''products'', ''services'', ''pricing'',
      ''blog'', ''news'', ''help'', ''faq'', ''support'']"

text \<open>
  The five selectors of \<^verbatim>\<open>INPUT_SELECTORS\<close>, in the order of the source. The model uses a
  selector only as the name of a locator, and writes the quotation marks around the
  attribute values as backquotes.
\<close>

definition INPUT_SELECTORS :: "string list" where
  "INPUT_SELECTORS =
     [''input[type=`search`]'',
      ''input[type=`text`][name*=`search`]'',
      ''input[type=`text`][placeholder*=`search` i]'',
      ''input[type=`text`][name*=`query`]'',
      ''input[type=`text`][name*=`q`]'']"

text \<open>
  The search for the input: the first selector whose first element is visible. An
  exception of \<^verbatim>\<open>isVisible\<close> is caught and the next selector is tried.
\<close>

fun findInput :: "'p page_api \<Rightarrow> string list \<Rightarrow> (string option, 'p world) act" where
  "findInput api [] = ret None"
| "findInput api (selector # rest) =
     bnd (try_catch (on_page (nth_isVisible api selector 0)) (\<lambda>e. ret False)) (\<lambda>visible.
       if visible then ret (Some selector) else findInput api rest)"

text \<open>\<^verbatim>\<open>String.fromCharCode(n)\<close> for a code unit of the model.\<close>

definition fromCharCode :: "int \<Rightarrow> char" where
  "fromCharCode n = char_of (n mod 65536)"

definition charCode :: "char \<Rightarrow> int" where
  "charCode c = of_char c"

text \<open>The typo of one loop round: a shifted character, a pause, Backspace, a pause.\<close>

definition typeTypo :: "'p page_api \<Rightarrow> (nat \<Rightarrow> rat) \<Rightarrow> char \<Rightarrow> (unit, 'p world) act" where
  "typeTypo api rnd char =
     bnd (randomInt rnd (- 2) 2) (\<lambda>shift.
     bnd (humanTypingDelay rnd) (\<lambda>_.
     bnd (on_page (keyboard_type api [fromCharCode (charCode char + shift)])) (\<lambda>_.
     bnd (humanDelay rnd) (\<lambda>_.
     bnd (on_page (keyboard_press api ''Backspace'')) (\<lambda>_.
     humanDelay rnd)))))"

text \<open>
  One round of the typing loop, for the character at index \<open>i\<close>. The draw is made before
  \<^verbatim>\<open>i > 0\<close> is looked at (\<^verbatim>\<open>Math.random() < 0.1 && i > 0\<close>).
\<close>

definition typeChar :: "'p page_api \<Rightarrow> (nat \<Rightarrow> rat) \<Rightarrow> nat \<Rightarrow> char \<Rightarrow> (unit, 'p world) act" where
  "typeChar api rnd i char =
     bnd (random rnd) (\<lambda>r.
     bnd (if r < lit (1 / 10) \<and> i > 0 then typeTypo api rnd char else ret ()) (\<lambda>_.
     bnd (humanTypingDelay rnd) (\<lambda>_.
     on_page (keyboard_type api [char]))))"

fun typeChars :: "'p page_api \<Rightarrow> (nat \<Rightarrow> rat) \<Rightarrow> nat \<Rightarrow> string \<Rightarrow> (unit, 'p world) act" where
  "typeChars api rnd i [] = ret ()"
| "typeChars api rnd i (char # rest) =
     bnd (typeChar api rnd i char) (\<lambda>_. typeChars api rnd (Suc i) rest)"

definition humanType :: "'p page_api \<Rightarrow> (nat \<Rightarrow> rat) \<Rightarrow> (bool, 'p world) act" where
  "humanType api rnd =
     bnd (findInput api INPUT_SELECTORS) (\<lambda>targetInput.
       case targetInput of
         None \<Rightarrow> ret False
       | Some selector \<Rightarrow>
           bnd (pickRandom rnd SEARCH_TERMS) (\<lambda>picked.
           bnd (on_page (nth_click api selector 0)) (\<lambda>_.
           bnd (humanDelay rnd) (\<lambda>_.
           bnd (typeChars api rnd 0
                  (case picked of None \<Rightarrow> ''about'' | Some t \<Rightarrow> if t = [] then ''about'' else t)) (\<lambda>_.
           bnd (humanDelay rnd) (\<lambda>_.
           bnd (random rnd) (\<lambda>r.
           bnd (if r > lit (5 / 10)
                then bnd (on_page (keyboard_press api ''Enter'')) (\<lambda>_. humanDelay rnd)
                else ret ()) (\<lambda>_.
           ret True))))))))"

subsection \<open>\<^verbatim>\<open>humanBack\<close> (\<^verbatim>\<open>actions/back.ts\<close>)\<close>

definition current_url :: "'p page_api \<Rightarrow> (string, 'p world) act" where
  "current_url api = (\<lambda>w. (Inr (page_url api (page w)), w))"

definition humanBack :: "'p page_api \<Rightarrow> (nat \<Rightarrow> rat) \<Rightarrow> (string option, 'p world) act" where
  "humanBack api rnd =
     try_catch
       (bnd (current_url api) (\<lambda>currentUrl.
          if \<not> startsWith currentUrl ''http'' then ret None
          else
        bnd (on_page (history_length api)) (\<lambda>historyLength.
          if historyLength \<le> 1 then ret None
          else
        bnd (humanDelay rnd) (\<lambda>_.
        bnd (on_page (goBack api)) (\<lambda>_.
        bnd (current_url api) (\<lambda>afterUrl.
          if \<not> startsWith afterUrl ''http''
          then bnd (on_page (goForward api)) (\<lambda>_. ret None)
          else if afterUrl \<noteq> currentUrl
          then bnd (humanDelay rnd) (\<lambda>_. ret (Some afterUrl))
          else ret None))))))
       (\<lambda>error. ret None)"

subsection \<open>\<^verbatim>\<open>humanClick\<close>, \<^verbatim>\<open>humanMedia\<close>, \<^verbatim>\<open>humanZoom\<close>, \<^verbatim>\<open>humanIdle\<close>\<close>

text \<open>
  Each of the first three is one \<^verbatim>\<open>try\<close> block whose \<^verbatim>\<open>catch\<close> logs and returns
  \<^verbatim>\<open>null\<close>; \<^verbatim>\<open>humanIdle\<close> has none.
\<close>

definition humanClick :: "'p page_api \<Rightarrow> (string option, 'p world) act" where
  "humanClick api = try_catch (click_body api) (\<lambda>error. ret None)"

definition humanMedia :: "'p page_api \<Rightarrow> (string option, 'p world) act" where
  "humanMedia api = try_catch (media_body api) (\<lambda>error. ret None)"

definition humanZoom :: "'p page_api \<Rightarrow> (string option, 'p world) act" where
  "humanZoom api = try_catch (zoom_body api) (\<lambda>error. ret None)"

definition humanIdle :: "'p page_api \<Rightarrow> (string, 'p world) act" where
  "humanIdle api = idle_body api"

section \<open>Action scheduler (\<^verbatim>\<open>explorer/loop.ts\<close>)\<close>

text \<open>
  What \<^verbatim>\<open>performRandomAction\<close> reads and writes through its \<^verbatim>\<open>LoopContext\<close>: the page and
  the random source (the world of the handlers), the visited set \<^verbatim>\<open>ctx.visitedUrls\<close>, and the
  reporter's list of action records (action, detail, page; the time stamp is left out) and
  its own set of visited pages.
\<close>

record 'p loop_state =
  world :: "'p world"
  visitedUrls :: "string set"
  actions :: "(string \<times> string \<times> string) list"
  reportedVisits :: "string set"

definition in_world :: "('a, 'p world) act \<Rightarrow> ('a, 'p loop_state) act" where
  "in_world m = (\<lambda>ls. case m (world ls) of (r, w') \<Rightarrow> (r, ls\<lparr>world := w'\<rparr>))"

definition recordAction :: "string \<Rightarrow> string \<Rightarrow> string \<Rightarrow> (unit, 'p loop_state) act" where
  "recordAction action detail pageUrl =
     (\<lambda>ls. (Inr (), ls\<lparr>actions := actions ls @ [(action, detail, pageUrl)]\<rparr>))"

text \<open>
  The test the type and click blocks share: when \<^verbatim>\<open>page.url() !== currentUrl\<close> the new URL
  is added to the visited set and to the reporter, and the block returns \<^verbatim>\<open>true\<close>.
\<close>

definition urlChanged :: "'p page_api \<Rightarrow> string \<Rightarrow> (bool, 'p loop_state) act" where
  "urlChanged api currentUrl =
     (\<lambda>ls. let u = page_url api (page (world ls))
           in if u \<noteq> currentUrl
              then (Inr True, ls\<lparr>visitedUrls := insert u (visitedUrls ls),
                                 reportedVisits := insert u (reportedVisits ls)\<rparr>)
              else (Inr False, ls))"

text \<open>The eight blocks of \<^verbatim>\<open>performRandomAction\<close>, in the order of the source.\<close>

definition scrollBlock ::
  "'p page_api \<Rightarrow> platform \<Rightarrow> (nat \<Rightarrow> rat) \<Rightarrow> string \<Rightarrow> (bool, 'p loop_state) act" where
  "scrollBlock api plat rnd currentUrl =
     bnd (in_world (humanScroll api plat rnd)) (\<lambda>scrolled.
     bnd (recordAction ''SCROLL'' (show_int scrolled @ ''px'') currentUrl) (\<lambda>_.
     ret False))"

definition hoverBlock :: "'p page_api \<Rightarrow> (nat \<Rightarrow> rat) \<Rightarrow> string \<Rightarrow> (bool, 'p loop_state) act" where
  "hoverBlock api rnd currentUrl =
     bnd (in_world (humanHover api rnd)) (\<lambda>hovered.
     bnd (if hovered > 0
          then recordAction ''HOVER'' (show_int hovered @ '' elements'') currentUrl
          else ret ()) (\<lambda>_.
     ret False))"

definition typeBlock :: "'p page_api \<Rightarrow> (nat \<Rightarrow> rat) \<Rightarrow> string \<Rightarrow> (bool, 'p loop_state) act" where
  "typeBlock api rnd currentUrl =
     bnd (in_world (humanType api rnd)) (\<lambda>typed.
       if typed
       then bnd (recordAction ''TYPE'' ''Search query'' currentUrl) (\<lambda>_. urlChanged api currentUrl)
       else ret False)"

text \<open>\<^verbatim>\<open>if (clicked)\<close>: \<^verbatim>\<open>null\<close> and the empty string are falsy.\<close>

definition truthy :: "string option \<Rightarrow> bool" where
  "truthy v = (case v of None \<Rightarrow> False | Some s \<Rightarrow> s \<noteq> [])"

definition clickBlock :: "'p page_api \<Rightarrow> string \<Rightarrow> (bool, 'p loop_state) act" where
  "clickBlock api currentUrl =
     bnd (in_world (humanClick api)) (\<lambda>clicked.
       if truthy clicked
       then bnd (recordAction ''CLICK'' (the clicked) currentUrl) (\<lambda>_. urlChanged api currentUrl)
       else ret False)"

definition backBlock :: "'p page_api \<Rightarrow> (nat \<Rightarrow> rat) \<Rightarrow> string \<Rightarrow> (bool, 'p loop_state) act" where
  "backBlock api rnd currentUrl =
     bnd (in_world (humanBack api rnd)) (\<lambda>backUrl.
       if truthy backUrl
       then bnd (recordAction ''BACK'' (the backUrl) currentUrl) (\<lambda>_. ret True)
       else ret False)"

definition mediaBlock :: "'p page_api \<Rightarrow> string \<Rightarrow> (bool, 'p loop_state) act" where
  "mediaBlock api currentUrl =
     bnd (in_world (humanMedia api)) (\<lambda>mediaResult.
     bnd (if truthy mediaResult
          then recordAction ''MEDIA'' (the mediaResult) currentUrl
          else ret ()) (\<lambda>_.
     ret False))"

definition zoomBlock :: "'p page_api \<Rightarrow> string \<Rightarrow> (bool, 'p loop_state) act" where
  "zoomBlock api currentUrl =
     bnd (in_world (humanZoom api)) (\<lambda>zoomResult.
     bnd (if truthy zoomResult
          then recordAction ''ZOOM'' (the zoomResult) currentUrl
          else ret ()) (\<lambda>_.
     ret False))"

definition idleBlock :: "'p page_api \<Rightarrow> string \<Rightarrow> (bool, 'p loop_state) act" where
  "idleBlock api currentUrl =
     bnd (in_world (humanIdle api)) (\<lambda>idleResult.
     bnd (recordAction ''IDLE'' idleResult currentUrl) (\<lambda>_.
     ret False))"

text \<open>
  \<^verbatim>\<open>performRandomAction(ctx, currentUrl)\<close>: one draw, then the chain of comparisons of the
  draw with the literals \<^verbatim>\<open>0.25\<close>, \<^verbatim>\<open>0.37\<close>, \<^verbatim>\<open>0.45\<close>, \<^verbatim>\<open>0.63\<close>, \<^verbatim>\<open>0.71\<close>, \<^verbatim>\<open>0.78\<close>, \<^verbatim>\<open>0.85\<close>.
\<close>

definition performRandomAction ::
  "'p page_api \<Rightarrow> platform \<Rightarrow> (nat \<Rightarrow> rat) \<Rightarrow> string \<Rightarrow> (bool, 'p loop_state) act" where
  "performRandomAction api plat rnd currentUrl =
     bnd (in_world (random rnd)) (\<lambda>roll.
       if roll < lit (25 / 100) then scrollBlock api plat rnd currentUrl
       else if roll < lit (37 / 100) then hoverBlock api rnd currentUrl
       else if roll < lit (45 / 100) then typeBlock api rnd currentUrl
       else if roll < lit (63 / 100) then clickBlock api currentUrl
       else if roll < lit (71 / 100) then backBlock api rnd currentUrl
       else if roll < lit (78 / 100) then mediaBlock api currentUrl
       else if roll < lit (85 / 100) then zoomBlock api currentUrl
       else idleBlock api currentUrl)"

text \<open>
  The action kinds, the block each kind names, and the kind whose block a roll reaches in
  the chain of comparisons above.
\<close>

datatype action_kind = Scroll | Hover | Type | Click | Back | Media | Zoom | Idle

fun block_of ::
  "action_kind \<Rightarrow> 'p page_api \<Rightarrow> platform \<Rightarrow> (nat \<Rightarrow> rat) \<Rightarrow> string \<Rightarrow> (bool, 'p loop_state) act" where
  "block_of Scroll api plat rnd currentUrl = scrollBlock api plat rnd currentUrl"
| "block_of Hover api plat rnd currentUrl = hoverBlock api rnd currentUrl"
| "block_of Type api plat rnd currentUrl = typeBlock api rnd currentUrl"
| "block_of Click api plat rnd currentUrl = clickBlock api currentUrl"
| "block_of Back api plat rnd currentUrl = backBlock api rnd currentUrl"
| "block_of Media api plat rnd currentUrl = mediaBlock api currentUrl"
| "block_of Zoom api plat rnd currentUrl = zoomBlock api currentUrl"
| "block_of Idle api plat rnd currentUrl = idleBlock api currentUrl"

definition selected_kind :: "rat \<Rightarrow> action_kind" where
  "selected_kind roll =
     (if roll < lit (25 / 100) then Scroll
      else if roll < lit (37 / 100) then Hover
      else if roll < lit (45 / 100) then Type
      else if roll < lit (63 / 100) then Click
      else if roll < lit (71 / 100) then Back
      else if roll < lit (78 / 100) then Media
      else if roll < lit (85 / 100) then Zoom
      else Idle)"

text \<open>
  The weights of the doc comment of \<^verbatim>\<open>performRandomAction\<close> (``Action probabilities (total =
  100%)'': Scroll 25%, Hover 12%, Type 8%, Click 18%, Back 8%, Media 7%, Zoom 7%, Idle 15%),
  and the sum of the weights of the kinds before a kind in the order of the chain.
\<close>

fun documented_weight :: "action_kind \<Rightarrow> rat" where
  "documented_weight Scroll = 25 / 100"
| "documented_weight Hover = 12 / 100"
| "documented_weight Type = 8 / 100"
| "documented_weight Click = 18 / 100"
| "documented_weight Back = 8 / 100"
| "documented_weight Media = 7 / 100"
| "documented_weight Zoom = 7 / 100"
| "documented_weight Idle = 15 / 100"

text \<open>
  The interval of draws that reach the block of a kind: from the threshold before it in the
  chain (0 for the first kind) up to its own threshold (1 for the last kind).
\<close>

fun kind_lower :: "action_kind \<Rightarrow> rat" where
  "kind_lower Scroll = 0"
| "kind_lower Hover = lit (25 / 100)"
| "kind_lower Type = lit (37 / 100)"
| "kind_lower Click = lit (45 / 100)"
| "kind_lower Back = lit (63 / 100)"
| "kind_lower Media = lit (71 / 100)"
| "kind_lower Zoom = lit (78 / 100)"
| "kind_lower Idle = lit (85 / 100)"

fun kind_upper :: "action_kind \<Rightarrow> rat" where
  "kind_upper Scroll = lit (25 / 100)"
| "kind_upper Hover = lit (37 / 100)"
| "kind_upper Type = lit (45 / 100)"
| "kind_upper Click = lit (63 / 100)"
| "kind_upper Back = lit (71 / 100)"
| "kind_upper Media = lit (78 / 100)"
| "kind_upper Zoom = lit (85 / 100)"
| "kind_upper Idle = 1"

definition all_kinds :: "action_kind list" where
  "all_kinds = [Scroll, Hover, Type, Click, Back, Media, Zoom, Idle]"

definition weight_before :: "action_kind \<Rightarrow> rat" where
  "weight_before k = sum_list (map documented_weight (takeWhile (\<lambda>j. j \<noteq> k) all_kinds))"

section \<open>Link collection and fallback navigation (\<^verbatim>\<open>actions/navigate.ts\<close>)\<close>

text \<open>
  \<^verbatim>\<open>[...new Set(links)]\<close>: the links are added to the set in order, a link already in the
  set is not added again, and the set is read in insertion order.
\<close>

fun set_insert_all :: "'a list \<Rightarrow> 'a list \<Rightarrow> 'a list" where
  "set_insert_all acc [] = acc"
| "set_insert_all acc (x # xs) = set_insert_all (if x \<in> set acc then acc else acc @ [x]) xs"

text \<open>
  What the script maps one anchor to: \<open>None\<close> (\<^verbatim>\<open>null\<close>) when the \<^verbatim>\<open>href\<close> does not parse or
  is of another origin, otherwise origin, path and query string.
\<close>

definition internal_link :: "platform \<Rightarrow> string \<Rightarrow> string \<Rightarrow> string option" where
  "internal_link plat origin href =
     (case parseURL plat href of
        None \<Rightarrow> None
      | Some url \<Rightarrow>
          if url_origin url \<noteq> origin then None
          else Some (url_origin url @ url_pathname url @ url_search url))"

definition collectInternalLinks :: "'p page_api \<Rightarrow> platform \<Rightarrow> (string list, 'p world) act" where
  "collectInternalLinks api plat =
     (\<lambda>w. let rawUrl = page_url api (page w)
          in if \<not> startsWith rawUrl ''http'' then (Inr [], w)
             else
               (case parseURL plat rawUrl of
                  None \<Rightarrow> (Inl (Error ''Invalid URL''), w)
                | Some currentUrl \<Rightarrow>
                    (case anchor_hrefs api (page w) of
                       Inl e \<Rightarrow> (Inl e, w)
                     | Inr hrefs \<Rightarrow>
                         (Inr (set_insert_all []
                                 (List.map_filter (internal_link plat (url_origin currentUrl)) hrefs)),
                          w))))"

text \<open>
  \<^verbatim>\<open>navigateToRandomLink\<close>: \<^verbatim>\<open>shuffled[0]\<close> of the shuffled unvisited links is the target.
  A failing \<^verbatim>\<open>page.goto\<close> is caught and gives \<^verbatim>\<open>null\<close>.
\<close>

definition navigateToRandomLink ::
  "'p page_api \<Rightarrow> platform \<Rightarrow> (nat \<Rightarrow> rat) \<Rightarrow> string set \<Rightarrow> (string option, 'p world) act" where
  "navigateToRandomLink api plat rnd visited =
     bnd (collectInternalLinks api plat) (\<lambda>allLinks.
       let unvisited = filter (\<lambda>url. url \<notin> visited) allLinks
       in if length unvisited = 0 then ret None
          else
            bnd (shuffle rnd unvisited) (\<lambda>shuffled.
            bnd (humanDelay rnd) (\<lambda>_.
              case js_index shuffled 0 of
                None \<Rightarrow> ret None
              | Some target \<Rightarrow>
                  try_catch
                    (bnd (on_page (page_goto api target)) (\<lambda>_.
                     bnd (humanDelay rnd) (\<lambda>_.
                     ret (Some target))))
                    (\<lambda>error. ret None))))"

text \<open>
  The shuffle as a function of the indices drawn: \<open>apply_swaps i js\<close> runs the loop from
  index \<open>i\<close> down to 1 with the list \<open>js\<close> of the values of \<^verbatim>\<open>randomInt(0, i)\<close>,
  \<^verbatim>\<open>randomInt(0, i - 1)\<close>, ... in the order they are drawn. \<open>drawn_indices rnd d i\<close> are
  these values when the first of the draws is the \<open>d\<close>-th of the source. \<open>index_vectors i\<close>
  lists every vector of indices the loop can draw: \<open>0..i\<close> for the first, \<open>0..i - 1\<close> for
  the second, and so on.
\<close>

fun apply_swaps :: "nat \<Rightarrow> int list \<Rightarrow> 'a list \<Rightarrow> 'a list" where
  "apply_swaps 0 js xs = xs"
| "apply_swaps (Suc i) [] xs = xs"
| "apply_swaps (Suc i) (j # js) xs = apply_swaps i js (swap_at xs (Suc i) j)"

fun drawn_indices :: "(nat \<Rightarrow> rat) \<Rightarrow> nat \<Rightarrow> nat \<Rightarrow> int list" where
  "drawn_indices rnd d 0 = []"
| "drawn_indices rnd d (Suc i) = randomInt_of (rnd d) 0 (int (Suc i)) # drawn_indices rnd (Suc d) i"

fun index_vectors :: "nat \<Rightarrow> int list list" where
  "index_vectors 0 = [[]]"
| "index_vectors (Suc i) =
     concat (map (\<lambda>j. map ((#) (int j)) (index_vectors i)) [0..<Suc (Suc i)])"

section \<open>Session life cycle and recovery (\<^verbatim>\<open>explorer/index.ts\<close>, \<^verbatim>\<open>explorer/recovery.ts\<close>)\<close>





















section \<open>The Gaussian helper and the reading time (\<^verbatim>\<open>humanizer\<close>, \<^verbatim>\<open>actions/idle.ts\<close>)\<close>

text \<open>
  \<^verbatim>\<open>gaussianRandom(mean, stddev)\<close> over the reals, as a function of its two draws, and the
  duration \<^verbatim>\<open>simulateReading\<close> computes from a sample: \<^verbatim>\<open>Math.round\<close> is
  \<open>\<lfloor>x + 1/2\<rfloor>\<close>, then \<^verbatim>\<open>Math.max(3000, Math.min(12000, readingTime))\<close>.
\<close>

definition gaussianRandom :: "real \<Rightarrow> real \<Rightarrow> real \<Rightarrow> real \<Rightarrow> real" where
  "gaussianRandom mean stddev u1 u2 = sqrt (- 2 * ln u1) * cos (2 * pi * u2) * stddev + mean"

definition reading_duration :: "real \<Rightarrow> int" where
  "reading_duration sample = max 3000 (min 12000 \<lfloor>sample + 1 / 2\<rfloor>)"

section \<open>Concrete inputs\<close>

text \<open>Three proxies and pools of them, on which the statements below are evaluated.\<close>

definition proxyA :: ProxyEntry where
  "proxyA = \<lparr>server = ''http://a.example:8080'', protocol = ''http'', host = ''a.example'',
             port = 8080, username = None, password = None\<rparr>"

definition proxyB :: ProxyEntry where
  "proxyB = \<lparr>server = ''http://b.example:3128'', protocol = ''http'', host = ''b.example'',
             port = 3128, username = Some ''user'', password = Some ''secret''\<rparr>"

definition proxyC :: ProxyEntry where
  "proxyC = \<lparr>server = ''socks5://c.example:1080'', protocol = ''socks5'', host = ''c.example'',
             port = 1080, username = None, password = None\<rparr>"

definition pool3 :: ProxyManager where
  "pool3 = \<lparr>proxies = [proxyA, proxyB, proxyC], currentIndex = 1\<rparr>"

text \<open>
  A platform whose URL parser knows the three proxy addresses and two pages of one site, a
  file system with a proxy file, a file of comments, an empty file and the directory they
  are in, and a health check that only the first proxy passes.
\<close>

definition demo_url :: "string \<Rightarrow> string \<Rightarrow> string \<Rightarrow> string \<Rightarrow> string \<Rightarrow> URL" where
  "demo_url proto hostname prt pathname search =
     \<lparr>url_protocol = proto @ '':'', url_hostname = hostname, url_port = prt,
      url_username = [], url_password = [],
      url_origin = proto @ ''://'' @ hostname @ (if prt = [] then [] else '':'' @ prt),
      url_pathname = pathname, url_search = search\<rparr>"

definition demo_platform :: platform where
  "demo_platform =
     \<lparr>parseURL = (\<lambda>s.
        if s = ''http://a.example:8080'' then Some (demo_url ''http'' ''a.example'' ''8080'' ''/'' [])
        else if s = ''socks5://c.example:1080'' then Some (demo_url ''socks5'' ''c.example'' ''1080'' ''/'' [])
        else if s = ''https://site.example/'' then Some (demo_url ''https'' ''site.example'' [] ''/'' [])
        else if s = ''https://site.example/a?x=1#top''
          then Some (demo_url ''https'' ''site.example'' [] ''/a'' ''?x=1'')
        else if s = ''https://site.example/a?x=1''
          then Some (demo_url ''https'' ''site.example'' [] ''/a'' ''?x=1'')
        else if s = ''https://site.example/b'' then Some (demo_url ''https'' ''site.example'' [] ''/b'' [])
        else if s = ''https://other.example/c'' then Some (demo_url ''https'' ''other.example'' [] ''/c'' [])
        else None),
      decodeURIComponent = Some\<rparr>"

definition demo_fs :: filesystem where
  "demo_fs =
     (\<lambda>p. if p = ''/etc/proxies.txt''
            then Readable (''# pool'' @ [CHR 0x0D, CHR 0x0A] @ ''http://a.example:8080'' @ [CHR 0x0A]
                       @ '' not a proxy '' @ [CHR 0x0A] @ ''socks5://c.example:1080'' @ [CHR 0x0A])
          else if p = ''/etc/comments.txt''
            then Readable (''# nothing here'' @ [CHR 0x0A] @ ''  '' @ [CHR 0x0A])
          else if p = ''/etc/empty.txt'' then Readable []
          else if p = ''/etc''
            then Unreadable (Error ''EISDIR: illegal operation on a directory, read'')
          else Absent)"

definition demo_check :: "ProxyEntry \<Rightarrow> bool" where
  "demo_check p = (host p = ''a.example'')"

text \<open>
  A small browser page: its URL, the history behind it, the keys the keyboard received, and
  whether an overlay covers the search box (a click on it then times out). The page has a
  visible search box, four links, and no other element; pressing Enter submits the search and
  navigates.
\<close>

datatype key_event = KeyType string | KeyPress string

record demo_page =
  dp_url :: string
  dp_history :: "string list"
  dp_keys :: "key_event list"
  dp_overlay :: bool

definition demo_visit :: "string \<Rightarrow> demo_page \<Rightarrow> demo_page" where
  "demo_visit u p = p\<lparr>dp_url := u, dp_history := dp_url p # dp_history p\<rparr>"

definition demo_api :: "demo_page page_api" where
  "demo_api =
     \<lparr>page_url = dp_url,
      locator_count = (\<lambda>sel. ret 0),
      nth_isVisible = (\<lambda>sel i. ret (sel = ''input[type=`search`]'' \<and> i = 0)),
      nth_boundingBox = (\<lambda>sel i. ret None),
      nth_textContent = (\<lambda>sel i. ret None),
      nth_hover = (\<lambda>sel i. ret ()),
      nth_click = (\<lambda>sel i p.
        if dp_overlay p then (Inl (Error ''locator.click: Timeout 30000ms exceeded''), p)
        else (Inr (), p)),
      keyboard_type = (\<lambda>t p. (Inr (), p\<lparr>dp_keys := dp_keys p @ [KeyType t]\<rparr>)),
      keyboard_press = (\<lambda>k p.
        (Inr (), (if k = ''Enter'' then demo_visit ''https://site.example/search'' p else p)
                   \<lparr>dp_keys := dp_keys p @ [KeyPress k]\<rparr>)),
      mouse_wheel = (\<lambda>amount. ret ()),
      history_length = (\<lambda>p. (Inr (int (length (dp_history p)) + 1), p)),
      goBack = (\<lambda>p. case dp_history p of
                       [] \<Rightarrow> (Inr (), p)
                     | u # us \<Rightarrow> (Inr (), p\<lparr>dp_url := u, dp_history := us\<rparr>)),
      goForward = ret (),
      page_goto = (\<lambda>u p. (Inr (), demo_visit u p)),
      anchor_hrefs = (\<lambda>p. Inr [''https://site.example/a?x=1#top'', ''https://other.example/c'',
                                 ''mailto:'', ''https://site.example/b'', ''https://site.example/a?x=1'']),
      click_body = ret None,
      media_body = ret None,
      zoom_body = throw (Error ''page.evaluate: Target closed''),
      idle_body = ret ''Distracted for 5s''\<rparr>"

text \<open>
  The same page with a video its media handler plays, and the same page after the browser
  closed it: the mouse wheel and the idle handler's mouse moves then throw.
\<close>

definition demo_media_api :: "demo_page page_api" where
  "demo_media_api = demo_api\<lparr>media_body := ret (Some ''Played video'')\<rparr>"

definition demo_closed_api :: "demo_page page_api" where
  "demo_closed_api =
     demo_api\<lparr>mouse_wheel :=
                (\<lambda>amount. throw (Error ''mouse.wheel: Target page, context or browser has been closed'')),
              idle_body :=
                throw (Error ''mouse.move: Target page, context or browser has been closed'')\<rparr>"

definition demo_home :: demo_page where
  "demo_home = \<lparr>dp_url = ''https://site.example/'', dp_history = [], dp_keys = [], dp_overlay = False\<rparr>"

definition demo_state :: "demo_page \<Rightarrow> demo_page loop_state" where
  "demo_state p =
     \<lparr>world = \<lparr>page = p, draws = 0\<rparr>, visitedUrls = {''https://site.example/''},
      actions = [], reportedVisits = {''https://site.example/''}\<rparr>"




section \<open>Unfolding the effects\<close>

lemma ret_apply: "ret a s = (Inr a, s)"
  by (simp add: ret_def)

lemma bnd_apply:
  "bnd m f s = (case m s of (Inl e, s') \<Rightarrow> (Inl e, s') | (Inr a, s') \<Rightarrow> f a s')"
  by (simp add: bnd_def)

lemma bnd_Inr: "m s = (Inr a, s') \<Longrightarrow> bnd m f s = f a s'"
  by (simp add: bnd_def)

lemma bnd_Inl: "m s = (Inl e, s') \<Longrightarrow> bnd m f s = (Inl e, s')"
  by (simp add: bnd_def)

lemma random_apply: "random rnd w = (Inr (rnd (draws w)), w\<lparr>draws := draws w + 1\<rparr>)"
  by (simp add: random_def)

lemma humanDelay_apply: "humanDelay rnd w = (Inr (), w\<lparr>draws := draws w + 2\<rparr>)"
  by (simp add: humanDelay_def gaussianDraws_def bnd_def random_def ret_def)

lemma humanTypingDelay_apply: "humanTypingDelay rnd w = (Inr (), w\<lparr>draws := draws w + 2\<rparr>)"
  by (simp add: humanTypingDelay_def gaussianDraws_def bnd_def random_def ret_def)

lemma randomInt_apply:
  "randomInt rnd lo hi w = (Inr (randomInt_of (rnd (draws w)) lo hi), w\<lparr>draws := draws w + 1\<rparr>)"
  by (simp add: randomInt_def bnd_def random_def ret_def)

lemma in_world_apply:
  "in_world m ls = (case m (world ls) of (r, w') \<Rightarrow> (r, ls\<lparr>world := w'\<rparr>))"
  by (simp add: in_world_def)

section \<open>Properties of rounding\<close>

text \<open>
  What the later sections use of rounding to a double: the result is within half a quantum of
  the argument, an integer below \<open>2\<^sup>5\<^sup>3\<close> is never crossed, a dyadic fraction with a numerator
  below \<open>2\<^sup>5\<^sup>3\<close> is a double, and the largest double below 1 is \<open>1 - 2\<^sup>-\<^sup>5\<^sup>3\<close>.
\<close>

lemma rne_near: "\<bar>of_int (rne y) - y\<bar> \<le> 1 / 2"
  unfolding rne_def Let_def by (auto simp: abs_if) linarith+

lemma rne_ge: "of_int n \<le> y \<Longrightarrow> n \<le> rne y"
  unfolding rne_def Let_def by (auto simp: le_floor_iff intro: order_trans [of n "\<lfloor>y\<rfloor>"])

lemma rne_le: "y \<le> of_int n \<Longrightarrow> rne y \<le> n"
proof -
  assume a: "y \<le> of_int n"
  show ?thesis
  proof (cases "y = of_int n")
    case True
    then show ?thesis by (simp add: rne_def)
  next
    case False
    with a have "y < of_int n" by simp
    then have "\<lfloor>y\<rfloor> < n" by (simp add: floor_less_iff)
    then show ?thesis unfolding rne_def Let_def by auto
  qed
qed

lemma rne_of_int [simp]: "rne (of_int n) = n"
  by (simp add: rne_def)

lemma binade_bounds:
  assumes "0 < x"
  shows "2 powi binade x \<le> x \<and> x < 2 powi (binade x + 1)"
proof -
  obtain a b where q: "quotient_of x = (a, b)" by (cases "quotient_of x")
  have b: "0 < b" using q by (rule quotient_of_denom_pos)
  have x: "x = of_int a / of_int b" using q by (rule quotient_of_div)
  have a: "0 < a" using assms b unfolding x by (simp add: zero_less_divide_iff)
  define la where "la = bitlen a"
  define lb where "lb = bitlen b"
  have la1: "1 \<le> la" using a by (auto simp: la_def bitlen_alt_def)
  have lb1: "1 \<le> lb" using b by (auto simp: lb_def bitlen_alt_def)
  have ba: "2 ^ nat (la - 1) \<le> a \<and> a < 2 ^ nat la"
    unfolding la_def using bitlen_bounds [OF a] .
  have bb: "2 ^ nat (lb - 1) \<le> b \<and> b < 2 ^ nat lb"
    unfolding lb_def using bitlen_bounds [OF b] .
  have ra: "(2::rat) powi (la - 1) \<le> of_int a \<and> of_int a < (2::rat) powi la"
  proof -
    have "(of_int (2 ^ nat (la - 1)) :: rat) \<le> of_int a" using ba by (simp only: of_int_le_iff)
    moreover have "(of_int a :: rat) < of_int (2 ^ nat la)" using ba by (simp only: of_int_less_iff)
    ultimately show ?thesis using la1 by (simp add: power_int_def)
  qed
  have rb: "(2::rat) powi (lb - 1) \<le> of_int b \<and> of_int b < (2::rat) powi lb"
  proof -
    have "(of_int (2 ^ nat (lb - 1)) :: rat) \<le> of_int b" using bb by (simp only: of_int_le_iff)
    moreover have "(of_int b :: rat) < of_int (2 ^ nat lb)" using bb by (simp only: of_int_less_iff)
    ultimately show ?thesis using lb1 by (simp add: power_int_def)
  qed
  have bpos: "(0::rat) < of_int b" using b by simp
  have up: "x < 2 powi (la - lb + 1)"
  proof -
    have "of_int a < (2::rat) powi la" using ra by simp
    also have "\<dots> = 2 powi (la - lb + 1) * 2 powi (lb - 1)"
      by (simp flip: power_int_add)
    also have "\<dots> \<le> 2 powi (la - lb + 1) * of_int b"
      using rb by (intro mult_left_mono) auto
    finally show ?thesis unfolding x using bpos by (simp add: pos_divide_less_eq)
  qed
  have lo: "2 powi (la - lb - 1) \<le> x"
  proof -
    have "(2::rat) powi (la - lb - 1) * of_int b \<le> 2 powi (la - lb - 1) * 2 powi lb"
      using rb by (intro mult_left_mono) auto
    also have "\<dots> = 2 powi (la - 1)" by (simp flip: power_int_add)
    also have "\<dots> \<le> of_int a" using ra by simp
    finally show ?thesis unfolding x using bpos by (simp add: pos_le_divide_eq)
  qed
  have bin: "binade x = (if 2 powi (la - lb) \<le> x then la - lb else la - lb - 1)"
    by (simp add: binade_def q la_def lb_def Let_def)
  show ?thesis
  proof (cases "2 powi (la - lb) \<le> x")
    case True
    then show ?thesis using up by (simp add: bin)
  next
    case False
    then show ?thesis using lo by (simp add: bin)
  qed
qed

lemma pow2_less_D: "(2::rat) powi m < 2 powi n \<Longrightarrow> m < n"
  using power_int_increasing [of n m "2::rat"] by (cases "m < n") auto

lemma binade_eqI:
  assumes "2 powi e \<le> x" and "x < 2 powi (e + 1)"
  shows "binade x = e"
proof -
  have pos: "0 < x" using assms(1) by (rule less_le_trans [rotated]) simp
  note b = binade_bounds [OF pos]
  have "2 powi e < (2::rat) powi (binade x + 1)" using assms(1) b by simp
  then have 1: "e < binade x + 1" by (rule pow2_less_D)
  have "2 powi binade x < (2::rat) powi (e + 1)" using assms(2) b by simp
  then have 2: "binade x < e + 1" by (rule pow2_less_D)
  from 1 2 show ?thesis by simp
qed

lemma quantum_pos: "0 < quantum x"
  by (simp add: quantum_def)

lemma round_double_near: "\<bar>round_double x - x\<bar> \<le> quantum x / 2"
proof (cases "x = 0")
  case True
  then show ?thesis using quantum_pos [of 0] by (simp add: round_double_def)
next
  case False
  define q where "q = quantum x"
  have q: "0 < q" unfolding q_def by (rule quantum_pos)
  have "round_double x - x = (of_int (rne (x / q)) - x / q) * q"
    using False q by (simp add: round_double_def q_def algebra_simps)
  then have "\<bar>round_double x - x\<bar> = \<bar>of_int (rne (x / q)) - x / q\<bar> * q"
    using q by (simp add: abs_mult)
  also have "\<dots> \<le> 1 / 2 * q"
    using q by (intro mult_right_mono rne_near) simp
  finally show ?thesis by (simp add: q_def)
qed

lemma round_double_nonneg: "0 \<le> x \<Longrightarrow> 0 \<le> round_double x"
  using rne_ge [of 0 "x / quantum x"] quantum_pos [of x]
  by (simp add: round_double_def)

lemma binade_less:
  assumes "0 < x" and "x < 2 powi (e + 1)"
  shows "binade x \<le> e"
proof -
  have "2 powi binade x < (2::rat) powi (e + 1)"
    using binade_bounds [OF assms(1)] assms(2) by simp
  then have "binade x < e + 1" by (rule pow2_less_D)
  then show ?thesis by simp
qed

lemma quantum_at:
  assumes "2 powi e \<le> x" and "x < 2 powi (e + 1)" and "- 1022 \<le> e"
  shows "quantum x = 2 powi (e - 52)"
proof -
  have pos: "0 < x" using assms(1) by (rule less_le_trans [rotated]) simp
  have "binade x = e" using assms(1,2) by (rule binade_eqI)
  then show ?thesis using pos assms(3) by (simp add: quantum_def max_def)
qed

lemma round_double_at:
  assumes "2 powi e \<le> x" and "x < 2 powi (e + 1)" and "- 1022 \<le> e"
  shows "round_double x = of_int (rne (x / 2 powi (e - 52))) * 2 powi (e - 52)"
proof -
  have pos: "0 < x" using assms(1) by (rule less_le_trans [rotated]) simp
  show ?thesis using pos by (simp add: round_double_def quantum_at [OF assms])
qed

text \<open>The rounding error is at most \<open>2\<^sup>-\<^sup>5\<^sup>3\<close> of the value, or half the least subnormal.\<close>

lemma tiny_pos: "0 < tiny"
  by (simp add: tiny_def)

lemma tiny_less: "tiny < 1 / 2 ^ 53"
proof -
  have "(2::rat) powi (- 1075) < 2 powi (- 53)" by (rule power_int_strict_increasing) simp_all
  then show ?thesis by (simp add: tiny_def power_int_minus field_simps)
qed

lemma quantum_rel:
  assumes "0 < x"
  shows "quantum x / 2 \<le> max (x / 2 ^ 53) tiny"
proof (cases "- 1022 \<le> binade x")
  case True
  then have "quantum x = 2 powi (binade x - 52)"
    using assms by (simp add: quantum_def max_def)
  then have "quantum x / 2 = 2 powi binade x / 2 ^ 53"
    by (simp add: power_int_diff)
  also have "\<dots> \<le> x / 2 ^ 53"
    using binade_bounds [OF assms] by (simp add: divide_right_mono)
  finally show ?thesis by simp
next
  case False
  then have "quantum x = 2 powi (- 1075 + 1)"
    using assms by (simp add: quantum_def max_def)
  also have "\<dots> = 2 powi (- 1075) * 2" by (subst power_int_add) simp_all
  finally have "quantum x / 2 = tiny" by (simp add: tiny_def)
  then show ?thesis by simp
qed

lemma quantum_inverse_nat:
  assumes "0 < x" and "x < 2 ^ 53"
  shows "\<exists>n::nat. quantum x * 2 ^ n = 1"
proof -
  have "x < 2 powi (52 + 1)" using assms(2) by simp
  then have b: "binade x \<le> 52" using assms(1) by (intro binade_less) 
  define c where "c = max (binade x) (- 1022) - 52"
  have c: "c \<le> 0" using b by (simp add: c_def)
  have q: "quantum x = 2 powi c" using assms(1) by (simp add: quantum_def c_def)
  have "(2::rat) powi c * 2 ^ nat (- c) = 2 powi c * 2 powi (- c)"
    using c by (simp add: power_int_def)
  also have "\<dots> = 1" by (simp flip: power_int_add)
  finally show ?thesis unfolding q by blast
qed

lemma round_double_ge_int:
  assumes "0 < x" and "x < 2 ^ 53" and "of_int k \<le> x"
  shows "of_int k \<le> round_double x"
proof -
  obtain n :: nat where n: "quantum x * 2 ^ n = 1"
    using quantum_inverse_nat [OF assms(1,2)] by blast
  define q where "q = quantum x"
  have q: "0 < q" unfolding q_def by (rule quantum_pos)
  have inv: "1 / q = 2 ^ n" using n q by (simp add: q_def field_simps)
  have "of_int k / q = of_int k * (1 / q)" by simp
  also have "\<dots> = of_int (k * 2 ^ n)" unfolding inv by simp
  finally have kq: "of_int k / q = (of_int (k * 2 ^ n) :: rat)" .
  have "of_int k / q \<le> x / q" using assms(3) q by (simp add: divide_right_mono)
  then have "k * 2 ^ n \<le> rne (x / q)" unfolding kq by (rule rne_ge)
  then have "(of_int (k * 2 ^ n) :: rat) \<le> of_int (rne (x / q))" by (simp only: of_int_le_iff)
  then have le: "of_int (k * 2 ^ n) * q \<le> of_int (rne (x / q)) * q"
    using q by (simp add: mult_right_mono)
  have "of_int (k * 2 ^ n) * q = of_int k * (q * 2 ^ n)" by simp
  also have "\<dots> = of_int k" unfolding q_def n by simp
  finally have eq: "of_int (k * 2 ^ n) * q = of_int k" .
  have rd: "round_double x = of_int (rne (x / q)) * q"
    using assms(1) by (simp add: round_double_def q_def)
  show ?thesis unfolding rd using le unfolding eq .
qed

lemma round_double_le_int:
  assumes "0 < x" and "x < 2 ^ 53" and "x \<le> of_int k"
  shows "round_double x \<le> of_int k"
proof -
  obtain n :: nat where n: "quantum x * 2 ^ n = 1"
    using quantum_inverse_nat [OF assms(1,2)] by blast
  define q where "q = quantum x"
  have q: "0 < q" unfolding q_def by (rule quantum_pos)
  have inv: "1 / q = 2 ^ n" using n q by (simp add: q_def field_simps)
  have "of_int k / q = of_int k * (1 / q)" by simp
  also have "\<dots> = of_int (k * 2 ^ n)" unfolding inv by simp
  finally have kq: "of_int k / q = (of_int (k * 2 ^ n) :: rat)" .
  have "x / q \<le> of_int k / q" using assms(3) q by (simp add: divide_right_mono)
  then have "rne (x / q) \<le> k * 2 ^ n" unfolding kq by (rule rne_le)
  then have "(of_int (rne (x / q)) :: rat) \<le> of_int (k * 2 ^ n)" by (simp only: of_int_le_iff)
  then have le: "of_int (rne (x / q)) * q \<le> of_int (k * 2 ^ n) * q"
    using q by (simp add: mult_right_mono)
  have "of_int (k * 2 ^ n) * q = of_int k * (q * 2 ^ n)" by simp
  also have "\<dots> = of_int k" unfolding q_def n by simp
  finally have eq: "of_int (k * 2 ^ n) * q = of_int k" .
  have rd: "round_double x = of_int (rne (x / q)) * q"
    using assms(1) by (simp add: round_double_def q_def)
  show ?thesis unfolding rd using le unfolding eq .
qed

lemma unit_double_le:
  assumes "unit_double r"
  shows "r \<le> 1 - 1 / 2 ^ 53"
proof (cases "r < 1 / 2")
  case True
  then show ?thesis by simp
next
  case False
  have r: "round_double r = r" "r < 1" using assms by (simp_all add: unit_double_def is_double_def)
  have lo: "2 powi (- 1) \<le> r" using False by (simp add: power_int_minus)
  have hi: "r < 2 powi (- 1 + 1)" using r(2) by simp
  have rd: "round_double r = of_int (rne (r / 2 powi (- 1 - 52))) * 2 powi (- 1 - 52)"
    using lo hi by (rule round_double_at) simp
  define n where "n = rne (r / 2 powi (- 1 - 52))"
  have p: "(2::rat) powi (- 1 - 52) = 1 / 2 ^ 53" by (simp add: power_int_minus field_simps)
  have rn: "r = of_int n / 2 ^ 53" using rd r(1) by (simp add: n_def p)
  have "of_int n < (2::rat) ^ 53" using r(2) unfolding rn by simp
  then have "(of_int n :: rat) < of_int (2 ^ 53)" by simp
  then have "n < 2 ^ 53" by (simp only: of_int_less_iff)
  then have "n \<le> 2 ^ 53 - 1" by simp
  then have "(of_int n :: rat) \<le> of_int (2 ^ 53 - 1)" by (simp only: of_int_le_iff)
  then have "(of_int n :: rat) \<le> 2 ^ 53 - 1" by simp
  then show ?thesis unfolding rn by (simp add: field_simps)
qed

lemma dyadic_is_double:
  fixes a :: int and n :: nat
  assumes "0 \<le> a" and "a < 2 ^ 53" and "n \<le> 1074"
  shows "is_double (of_int a / 2 ^ n)"
proof (cases "a = 0")
  case True
  then show ?thesis by (simp add: is_double_def round_double_def)
next
  case False
  define x :: rat where "x = of_int a / 2 ^ n"
  have a: "0 < a" using assms(1) False by simp
  have pos: "0 < x" using a by (simp add: x_def)
  have "(of_int a :: rat) < of_int (2 ^ 53)" using assms(2) by (simp only: of_int_less_iff)
  then have a53: "(of_int a :: rat) < 2 ^ 53" by simp
  have "x < 2 ^ 53 / 2 ^ n" unfolding x_def using a53 by (simp add: divide_strict_right_mono)
  also have "\<dots> = 2 powi (52 - int n + 1)"
    by (simp add: power_int_diff power_int_add)
  finally have "binade x \<le> 52 - int n" using pos by (intro binade_less) 
  then have c: "max (binade x) (- 1022) - 52 \<le> - int n" using assms(3) by simp
  define c where "c = max (binade x) (- 1022) - 52"
  have q: "quantum x = 2 powi c" using pos by (simp add: quantum_def c_def)
  have cn: "0 \<le> - int n - c" using c by (simp add: c_def)
  have "x / quantum x = x / 2 powi c" by (simp only: q)
  also have "\<dots> = of_int a * (2 powi (- int n) * 2 powi (- c))"
    unfolding x_def by (simp add: power_int_minus power_int_def field_simps)
  also have "2 powi (- int n) * (2::rat) powi (- c) = 2 powi (- int n - c)"
    by (simp flip: power_int_add)
  also have "\<dots> = 2 ^ nat (- int n - c)" using cn by (simp add: power_int_def)
  finally have "x / quantum x = of_int (a * 2 ^ nat (- int n - c))" by simp
  then have "of_int (rne (x / quantum x)) = x / quantum x" by (simp only: rne_of_int)
  then have stays: "round_double x = x"
    using pos quantum_pos [of x] by (simp add: round_double_def)
  have p: "(1::rat) \<le> 2 ^ n" by simp
  have "(of_int a :: rat) * 1 \<le> of_int a * 2 ^ n"
    using a p by (intro mult_left_mono) simp_all
  then have "x \<le> of_int a" by (simp add: x_def pos_divide_le_eq)
  also have "\<dots> < 2 powi 53" using a53 by simp
  also have "\<dots> \<le> 2 powi 1024" by (rule power_int_increasing) simp_all
  finally have "\<bar>x\<bar> < 2 powi 1024" using pos by simp
  with stays show ?thesis by (simp add: is_double_def x_def)
qed

lemma round_double_int:
  assumes "0 \<le> k" and "k < 2 ^ 53"
  shows "round_double (of_int k) = of_int k"
  using dyadic_is_double [OF assms, of 0] by (simp add: is_double_def)

lemma round_double_upper:
  assumes "0 < x"
  shows "round_double x \<le> x + max (x / 2 ^ 53) tiny"
  using round_double_near [of x] quantum_rel [OF assms] by linarith

text \<open>A draw in \<open>[0, 1)\<close> times a positive integer \<open>m\<close> rounds to less than \<open>m\<close>.\<close>

lemma scaled_draw_less:
  assumes "unit_double r" and "0 < m"
  shows "round_double (r * of_int m) < of_int m"
proof (cases "r = 0")
  case True
  then show ?thesis using assms(2) by (simp add: round_double_def)
next
  case False
  define x where "x = r * of_int m"
  have r: "0 < r" "r \<le> 1 - 1 / 2 ^ 53"
    using assms(1) False unit_double_le [OF assms(1)] by (simp_all add: unit_double_def)
  have m: "(1::rat) \<le> of_int m" using assms(2) by simp
  have pos: "0 < x" using r(1) m by (simp add: x_def)
  have "x \<le> (1 - 1 / 2 ^ 53) * of_int m"
    unfolding x_def using r(2) m by (intro mult_right_mono) auto
  then have xm: "x + of_int m / 2 ^ 53 \<le> of_int m" by (simp add: algebra_simps)
  have "(0::rat) < of_int m / 2 ^ 53" using m by simp
  then have lt: "x < of_int m" using xm by linarith
  have e1: "x / 2 ^ 53 < of_int m / 2 ^ 53" using lt by (simp add: divide_strict_right_mono)
  have "tiny < 1 / 2 ^ 53" by (rule tiny_less)
  also have "\<dots> \<le> of_int m / 2 ^ 53" using m by (simp add: divide_right_mono)
  finally have e2: "tiny < of_int m / 2 ^ 53" .
  have "max (x / 2 ^ 53) tiny < of_int m / 2 ^ 53" using e1 e2 by simp
  then have "round_double x < x + of_int m / 2 ^ 53"
    using round_double_upper [OF pos] by linarith
  then show ?thesis using xm unfolding x_def by linarith
qed

lemma randomInt_of_range:
  assumes "unit_double r" and "lo \<le> hi"
  shows "lo \<le> randomInt_of r lo hi \<and> randomInt_of r lo hi \<le> hi"
proof -
  define m where "m = hi - lo + 1"
  have m: "0 < m" using assms(2) by (simp add: m_def)
  have "0 \<le> r * of_int m" using assms(1) m by (simp add: unit_double_def)
  then have "0 \<le> round_double (r * of_int m)" by (rule round_double_nonneg)
  then have lo: "0 \<le> \<lfloor>round_double (r * of_int m)\<rfloor>" by simp
  have "round_double (r * of_int m) < of_int m" using assms(1) m by (rule scaled_draw_less)
  then have hi: "\<lfloor>round_double (r * of_int m)\<rfloor> < m" by (simp add: floor_less_iff)
  show ?thesis using lo hi by (simp add: randomInt_of_def m_def)
qed

lemma scaled_floor_below:
  assumes "0 \<le> x" and "x < 2 ^ 53"
  shows "x < of_int \<lfloor>round_double x\<rfloor> + 1"
proof (rule ccontr)
  assume "\<not> x < of_int \<lfloor>round_double x\<rfloor> + 1"
  then have ge: "of_int (\<lfloor>round_double x\<rfloor> + 1) \<le> x" by simp
  have "0 \<le> round_double x" using assms(1) by (rule round_double_nonneg)
  then have "0 \<le> \<lfloor>round_double x\<rfloor>" by simp
  then have "0 < \<lfloor>round_double x\<rfloor> + 1" by linarith
  then have "(0::rat) < of_int (\<lfloor>round_double x\<rfloor> + 1)" by (simp only: of_int_0_less_iff)
  then have pos: "0 < x" using ge by linarith
  have "of_int (\<lfloor>round_double x\<rfloor> + 1) \<le> round_double x"
    using pos assms(2) ge by (rule round_double_ge_int)
  then have "\<lfloor>round_double x\<rfloor> + 1 \<le> \<lfloor>round_double x\<rfloor>" by (simp only: le_floor_iff)
  then show False by simp
qed

lemma scaled_floor_above:
  assumes "0 \<le> x" and "x < m" and "1 \<le> m"
  shows "of_int \<lfloor>round_double x\<rfloor> - m / 2 ^ 53 < x"
proof (cases "x = 0")
  case True
  then show ?thesis using assms(3) by (simp add: round_double_def)
next
  case False
  then have pos: "0 < x" using assms(1) by simp
  have e1: "x / 2 ^ 53 < m / 2 ^ 53" using assms(2) by (simp add: divide_strict_right_mono)
  have "tiny < 1 / 2 ^ 53" by (rule tiny_less)
  also have "\<dots> \<le> m / 2 ^ 53" using assms(3) by (simp add: divide_right_mono)
  finally have e2: "tiny < m / 2 ^ 53" .
  have "max (x / 2 ^ 53) tiny < m / 2 ^ 53" using e1 e2 by simp
  then have "round_double x < x + m / 2 ^ 53"
    using round_double_upper [OF pos] by linarith
  moreover have "of_int \<lfloor>round_double x\<rfloor> \<le> round_double x" by simp
  ultimately show ?thesis by linarith
qed

lemma scaled_floor_eq:
  assumes "of_int k \<le> x" and "x < of_int k + 1 - m / 2 ^ 53" and "x < m" and "1 \<le> m"
    and "0 \<le> x" and "x < 2 ^ 53"
  shows "\<lfloor>round_double x\<rfloor> = k"
proof (cases "x = 0")
  case True
  have "(0::rat) < m / 2 ^ 53" using assms(4) by simp
  then have "(0::rat) < of_int k + 1" using assms(2) True by linarith
  then have "(0::rat) < of_int (k + 1)" by simp
  then have "0 < k + 1" by (simp only: of_int_0_less_iff)
  moreover have "k \<le> 0" using assms(1) True by simp
  ultimately show ?thesis using True by (simp add: round_double_def)
next
  case False
  then have pos: "0 < x" using assms(5) by simp
  have lo: "of_int k \<le> round_double x" using pos assms(6,1) by (rule round_double_ge_int)
  have e1: "x / 2 ^ 53 < m / 2 ^ 53" using assms(3) by (simp add: divide_strict_right_mono)
  have "tiny < 1 / 2 ^ 53" by (rule tiny_less)
  also have "\<dots> \<le> m / 2 ^ 53" using assms(4) by (simp add: divide_right_mono)
  finally have e2: "tiny < m / 2 ^ 53" .
  have "max (x / 2 ^ 53) tiny < m / 2 ^ 53" using e1 e2 by simp
  then have "round_double x < x + m / 2 ^ 53"
    using round_double_upper [OF pos] by linarith
  then have hi: "round_double x < of_int k + 1" using assms(2) by linarith
  show ?thesis using lo hi by (simp add: floor_eq_iff)
qed

lemma rne_eqI:
  assumes "\<bar>of_int n - y\<bar> < 1 / 2"
  shows "rne y = n"
proof -
  have "\<bar>(of_int (rne y) :: rat) - of_int n\<bar> < 1"
    using rne_near [of y] assms by linarith
  then have "\<bar>(of_int (rne y - n) :: rat)\<bar> < of_int 1" by simp
  then have "\<bar>rne y - n\<bar> < 1" by (simp only: of_int_abs [symmetric] of_int_less_iff)
  then show ?thesis by simp
qed

lemma round_double_eqI:
  assumes "2 powi e \<le> x" and "x < 2 powi (e + 1)" and "- 1022 \<le> e"
    and "\<bar>of_int n - x / 2 powi (e - 52)\<bar> < 1 / 2"
  shows "round_double x = of_int n * 2 powi (e - 52)"
  using round_double_at [OF assms(1-3)] rne_eqI [OF assms(4)] by simp

text \<open>The doubles the literals of the program denote.\<close>

lemma lit_quarter: "lit (25 / 100) = 1 / 4"
  unfolding lit_def
  using round_double_eqI [of "- 2" "25 / 100" 4503599627370496]
  by (simp add: power_int_minus)

lemma lit_037: "lit (37 / 100) = 3332663724254167 / 2 ^ 53"
  unfolding lit_def
  using round_double_eqI [of "- 2" "37 / 100" 6665327448508334]
  by (simp add: power_int_minus)

lemma lit_045: "lit (45 / 100) = 8106479329266893 / 2 ^ 54"
  unfolding lit_def
  using round_double_eqI [of "- 2" "45 / 100" 8106479329266893]
  by (simp add: power_int_minus)

lemma lit_063: "lit (63 / 100) = 5674535530486825 / 2 ^ 53"
  unfolding lit_def
  using round_double_eqI [of "- 1" "63 / 100" 5674535530486825]
  by (simp add: power_int_minus)

lemma lit_071: "lit (71 / 100) = 799388933858263 / 2 ^ 50"
  unfolding lit_def
  using round_double_eqI [of "- 1" "71 / 100" 6395111470866104]
  by (simp add: power_int_minus)

lemma lit_078: "lit (78 / 100) = 3512807709348987 / 2 ^ 52"
  unfolding lit_def
  using round_double_eqI [of "- 1" "78 / 100" 7025615418697974]
  by (simp add: power_int_minus)

lemma lit_085: "lit (85 / 100) = 7656119366529843 / 2 ^ 53"
  unfolding lit_def
  using round_double_eqI [of "- 1" "85 / 100" 7656119366529843]
  by (simp add: power_int_minus)

lemma lit_tenth: "lit (1 / 10) = 3602879701896397 / 2 ^ 55"
  unfolding lit_def
  using round_double_eqI [of "- 4" "1 / 10" 7205759403792794]
  by (simp add: power_int_minus)

lemma lit_015: "lit (15 / 100) = 5404319552844595 / 2 ^ 55"
  unfolding lit_def
  using round_double_eqI [of "- 3" "15 / 100" 5404319552844595]
  by (simp add: power_int_minus)

lemma lit_fifth: "lit (2 / 10) = 3602879701896397 / 2 ^ 54"
  unfolding lit_def
  using round_double_eqI [of "- 3" "2 / 10" 7205759403792794]
  by (simp add: power_int_minus)

lemma lit_half: "lit (5 / 10) = 1 / 2"
  unfolding lit_def
  using round_double_eqI [of "- 1" "5 / 10" 4503599627370496]
  by (simp add: power_int_minus)

lemma lit_04: "lit (2 / 5) = 3602879701896397 / 2 ^ 53"
  unfolding lit_def
  using round_double_eqI [of "- 2" "2 / 5" 7205759403792794]
  by (simp add: power_int_minus)

text \<open>The same facts for the literals as fractions in lowest terms.\<close>

lemma lit_lowest_terms:
  "lit (1 / 4) = 1 / 4"
  "lit (9 / 20) = 8106479329266893 / 2 ^ 54"
  "lit (39 / 50) = 3512807709348987 / 2 ^ 52"
  "lit (17 / 20) = 7656119366529843 / 2 ^ 53"
  "lit (3 / 20) = 5404319552844595 / 2 ^ 55"
  "lit (1 / 5) = 3602879701896397 / 2 ^ 54"
  "lit (1 / 2) = 1 / 2"
  using lit_quarter lit_045 lit_078 lit_085 lit_015 lit_fifth lit_half by simp_all

lemmas lit_values =
  lit_quarter lit_037 lit_045 lit_063 lit_071 lit_078 lit_085 lit_tenth lit_015 lit_fifth
  lit_half lit_04 lit_lowest_terms

text \<open>Rounding leaves a dyadic fraction as it is; draws written as such fractions are doubles.\<close>

lemma round_double_dyadic:
  fixes a :: int and n :: nat
  assumes "0 \<le> a" and "a < 2 ^ 53" and "n \<le> 1074"
  shows "round_double (of_int a / 2 ^ n) = of_int a / 2 ^ n"
  using dyadic_is_double [OF assms] by (simp add: is_double_def)

lemma unit_double_dyadic:
  fixes a :: int and n :: nat
  assumes "0 \<le> a" and "a < 2 ^ n" and "n \<le> 53"
  shows "unit_double (of_int a / 2 ^ n)"
proof -
  have "(2::int) ^ n \<le> 2 ^ 53" using assms(3) by (intro power_increasing) simp_all
  then have "a < 2 ^ 53" using assms(2) by linarith
  then have d: "is_double (of_int a / 2 ^ n)"
    using assms(1,3) by (intro dyadic_is_double) simp_all
  have "(of_int a :: rat) < of_int (2 ^ n)" using assms(2) by (simp only: of_int_less_iff)
  then have "(of_int a :: rat) / 2 ^ n < 1" by simp
  moreover have "(0::rat) \<le> of_int a / 2 ^ n" using assms(1) by simp
  ultimately show ?thesis using d by (simp add: unit_double_def)
qed

text \<open>
  Two draws next to a boundary, where the rounding of the product decides the index. The
  double 0.6 times 5 is just below 3 and rounds to 3, so that \<^verbatim>\<open>randomInt(-2, 2)\<close> is 1 and not
  0. The largest double below two thirds times 3 is halfway between 2 and the double below
  it, and the tie goes to 2, so that \<^verbatim>\<open>randomInt(0, 2)\<close> is 2 and not 1.
\<close>

lemma rne_tie:
  assumes "y = of_int f + 1 / 2"
  shows "rne y = (if even f then f else f + 1)"
proof -
  have "\<lfloor>y\<rfloor> = f" unfolding assms by (rule floor_unique) simp_all
  then show ?thesis by (simp add: rne_def assms)
qed

lemma lit_06: "lit (6 / 10) = 5404319552844595 / 2 ^ 53"
  unfolding lit_def
  using round_double_eqI [of "- 1" "6 / 10" 5404319552844595]
  by (simp add: power_int_minus)

lemma boundary_draw_06:
  "lit (6 / 10) * 5 < 3" and "randomInt_of (lit (6 / 10)) (- 2) 2 = 1"
proof -
  show "lit (6 / 10) * 5 < 3" unfolding lit_06 by simp
  have "round_double (5404319552844595 / 2 ^ 53 * 5) = of_int 6755399441055744 * 2 powi (1 - 52)"
    by (rule round_double_eqI) (simp_all add: power_int_minus)
  then have "round_double (5404319552844595 / 2 ^ 53 * 5) = 3"
    by (simp add: power_int_minus)
  then show "randomInt_of (lit (6 / 10)) (- 2) 2 = 1"
    unfolding lit_06 by (simp add: randomInt_of_def)
qed

lemma boundary_draw_two_thirds:
  "(6004799503160661 / 2 ^ 53 :: rat) * 3 < 2"
    and "unit_double (6004799503160661 / 2 ^ 53)"
    and "randomInt_of (6004799503160661 / 2 ^ 53) 0 2 = 2"
proof -
  show "(6004799503160661 / 2 ^ 53 :: rat) * 3 < 2" by simp
  show "unit_double (6004799503160661 / 2 ^ 53)"
    using unit_double_dyadic [of 6004799503160661 53] by simp
  have r: "rne (6004799503160661 / 2 ^ 53 * 3 / 2 powi (0 - 52)) = 9007199254740992"
    using rne_tie [of "6004799503160661 / 2 ^ 53 * 3 / 2 powi (0 - 52)" 9007199254740991]
    by (simp add: power_int_minus)
  have "round_double (6004799503160661 / 2 ^ 53 * 3)
          = of_int (rne (6004799503160661 / 2 ^ 53 * 3 / 2 powi (0 - 52))) * 2 powi (0 - 52)"
    by (rule round_double_at) (simp_all add: power_int_minus)
  then have "round_double (6004799503160661 / 2 ^ 53 * 3) = 2"
    unfolding r by (simp add: power_int_minus)
  then show "randomInt_of (6004799503160661 / 2 ^ 53) 0 2 = 2"
    by (simp add: randomInt_of_def)
qed

section \<open>Properties of the proxy pool\<close>

lemma getNext_in_range:
  assumes "currentIndex m < length (proxies m)"
  shows "getNext m = (Some (proxies m ! currentIndex m),
                      m\<lparr>currentIndex := (currentIndex m + 1) mod length (proxies m)\<rparr>)"
  using assms by (auto simp: getNext_def Let_def)

lemma getNext_empty: "proxies m = [] \<Longrightarrow> getNext m = (None, m)"
  by (simp add: getNext_def)

lemma getNextN_steps:
  assumes "currentIndex m < length (proxies m)"
  shows "getNextN n m =
           (map (\<lambda>i. Some (proxies m ! ((currentIndex m + i) mod length (proxies m)))) [0..<n],
            m\<lparr>currentIndex := (currentIndex m + n) mod length (proxies m)\<rparr>)"
  using assms
proof (induction n arbitrary: m)
  case 0
  then show ?case by simp
next
  case (Suc n)
  let ?K = "length (proxies m)"
  let ?m' = "m\<lparr>currentIndex := (currentIndex m + 1) mod ?K\<rparr>"
  have K: "0 < ?K" using Suc.prems by (cases "proxies m") auto
  have step: "getNext m = (Some (proxies m ! currentIndex m), ?m')"
    using Suc.prems by (rule getNext_in_range)
  have inr: "currentIndex ?m' < length (proxies ?m')" using K by simp
  have idx: "\<And>i. (Suc (currentIndex m) mod ?K + i) mod ?K = Suc (currentIndex m + i) mod ?K"
    by (simp add: mod_simps)
  have shift: "map (\<lambda>i. Some (proxies m ! ((currentIndex m + i) mod ?K))) [0..<Suc n] =
      Some (proxies m ! currentIndex m) #
      map (\<lambda>i. Some (proxies m ! (Suc (currentIndex m + i) mod ?K))) [0..<n]"
    using Suc.prems by (simp add: upt_conv_Cons map_Suc_upt [symmetric] del: upt_Suc)
  show ?case
    using Suc.IH [OF inr] by (simp add: step shift idx del: upt_Suc)
qed

lemma rotate_as_map:
  assumes "xs \<noteq> []"
  shows "map (\<lambda>i. xs ! ((c + i) mod length xs)) [0..<length xs] = rotate c xs"
  by (rule nth_equalityI) (simp_all add: nth_rotate)

lemma getNextN_full_cycle:
  assumes "currentIndex m < length (proxies m)"
  shows "getNextN (length (proxies m)) m = (map Some (rotate (currentIndex m) (proxies m)), m)"
proof -
  have ne: "proxies m \<noteq> []" using assms by auto
  have "map (\<lambda>i. Some (proxies m ! ((currentIndex m + i) mod length (proxies m)))) [0..<length (proxies m)]
       = map Some (map (\<lambda>i. proxies m ! ((currentIndex m + i) mod length (proxies m))) [0..<length (proxies m)])"
    by simp
  also have "\<dots> = map Some (rotate (currentIndex m) (proxies m))"
    using rotate_as_map [OF ne] by simp
  finally show ?thesis
    using getNextN_steps [OF assms, of "length (proxies m)"] assms by simp
qed

lemma mset_rotate_eq: "mset (rotate n xs) = mset xs"
proof -
  let ?k = "n mod length xs"
  have a: "mset xs = mset (take ?k xs) + mset (drop ?k xs)"
    by (simp only: mset_append [symmetric] append_take_drop_id)
  have b: "mset (rotate n xs) = mset (drop ?k xs) + mset (take ?k xs)"
    by (simp only: rotate_drop_take mset_append)
  from a b show ?thesis by (metis union_commute)
qed

text \<open>
  Claim C3 (round-robin allocation). When the cursor indexes an entry of a pool of \<open>K\<close>
  entries, one call of \<^verbatim>\<open>getNext\<close> returns the entry at the cursor and advances the cursor
  by one modulo \<open>K\<close>; \<open>K\<close> consecutive calls return the pool rotated to start at the
  cursor, that is every entry exactly once in cyclic order, and leave the manager as it was.
  On an empty pool \<^verbatim>\<open>getNext\<close> returns nothing and changes nothing.
\<close>

theorem getNext_round_robin:
  "(currentIndex m < length (proxies m) \<longrightarrow>
      getNext m = (Some (proxies m ! currentIndex m),
                   m\<lparr>currentIndex := (currentIndex m + 1) mod length (proxies m)\<rparr>)
      \<and> getNextN (length (proxies m)) m = (map Some (rotate (currentIndex m) (proxies m)), m)
      \<and> mset (map the (fst (getNextN (length (proxies m)) m))) = mset (proxies m))
   \<and> (proxies m = [] \<longrightarrow> getNext m = (None, m))"
proof (intro conjI impI)
  assume a: "currentIndex m < length (proxies m)"
  show "getNext m = (Some (proxies m ! currentIndex m),
                   m\<lparr>currentIndex := (currentIndex m + 1) mod length (proxies m)\<rparr>)"
    using a by (rule getNext_in_range)
  show "getNextN (length (proxies m)) m = (map Some (rotate (currentIndex m) (proxies m)), m)"
    using a by (rule getNextN_full_cycle)
  then show "mset (map the (fst (getNextN (length (proxies m)) m))) = mset (proxies m)"
    by (simp add: comp_def mset_rotate_eq)
next
  assume "proxies m = []"
  then show "getNext m = (None, m)" by (rule getNext_empty)
qed

theorem getNext_round_robin_witness:
  "currentIndex pool3 < length (proxies pool3)
   \<and> getNext pool3 = (Some proxyB, pool3\<lparr>currentIndex := 2\<rparr>)
   \<and> getNextN 3 pool3 = ([Some proxyB, Some proxyC, Some proxyA], pool3)
   \<and> proxies newProxyManager = []
   \<and> getNext newProxyManager = (None, newProxyManager)"
proof -
  have h: "currentIndex pool3 < length (proxies pool3)"
    by (simp add: pool3_def)
  have e: "proxies newProxyManager = []"
    by (simp add: newProxyManager_def)
  have len: "length (proxies pool3) = 3" and cur: "currentIndex pool3 = 1"
    by (simp_all add: pool3_def)
  have rot: "rotate (currentIndex pool3) (proxies pool3) = [proxyB, proxyC, proxyA]"
    by (simp add: pool3_def)
  have nth: "proxies pool3 ! currentIndex pool3 = proxyB"
    by (simp add: pool3_def)
  from getNext_round_robin [of pool3] h
  have one: "getNext pool3 = (Some (proxies pool3 ! currentIndex pool3),
               pool3\<lparr>currentIndex := (currentIndex pool3 + 1) mod length (proxies pool3)\<rparr>)"
    and cyc: "getNextN (length (proxies pool3)) pool3
               = (map Some (rotate (currentIndex pool3) (proxies pool3)), pool3)"
    by blast+
  from getNext_round_robin [of newProxyManager] e
  have emp: "getNext newProxyManager = (None, newProxyManager)"
    by blast
  have one': "getNext pool3 = (Some proxyB, pool3\<lparr>currentIndex := 2\<rparr>)"
    using one by (simp add: pool3_def)
  have cyc': "getNextN 3 pool3 = ([Some proxyB, Some proxyC, Some proxyA], pool3)"
    using cyc by (simp add: pool3_def numeral_3_eq_3)
  from h one' cyc' e emp show ?thesis by blast
qed

lemma cursor_ok_getNext: "cursor_ok m \<Longrightarrow> cursor_ok (snd (getNext m))"
  by (auto simp: cursor_ok_def getNext_def Let_def)

lemma cursor_ok_markDead: "cursor_ok (markDead p m)"
  by (auto simp: cursor_ok_def markDead_def Let_def)

lemma cursor_ok_run: "cursor_ok m \<Longrightarrow> cursor_ok (run_pool_ops ops m)"
proof (induction ops arbitrary: m)
  case Nil
  then show ?case by simp
next
  case (Cons x xs)
  have "cursor_ok (apply_pool_op x m)"
    using Cons.prems by (cases x) (simp_all add: cursor_ok_getNext cursor_ok_markDead)
  then show ?case by (simp add: Cons.IH)
qed

lemma proxies_getNext: "proxies (snd (getNext m)) = proxies m"
  by (simp add: getNext_def Let_def)

lemma proxies_markDead:
  "proxies (markDead p m) = filter (\<lambda>q. server q \<noteq> server p) (proxies m)"
  by (simp add: markDead_def Let_def)

lemma proxies_apply_subset: "set (proxies (apply_pool_op x m)) \<subseteq> set (proxies m)"
  by (cases x) (auto simp: proxies_getNext proxies_markDead)

lemma proxies_run_subset: "set (proxies (run_pool_ops ops m)) \<subseteq> set (proxies m)"
proof (induction ops arbitrary: m)
  case Nil
  show ?case by simp
next
  case (Cons x xs)
  have "set (proxies (run_pool_ops xs (apply_pool_op x m))) \<subseteq> set (proxies (apply_pool_op x m))"
    by (rule Cons.IH)
  also have "\<dots> \<subseteq> set (proxies m)" by (rule proxies_apply_subset)
  finally show ?case by simp
qed

lemma getNext_after_markDead:
  "case fst (getNext (markDead p m)) of
     None \<Rightarrow> proxies (markDead p m) = []
   | Some q \<Rightarrow> q = proxies (markDead p m) ! currentIndex (markDead p m)
              \<and> q \<in> set (proxies (markDead p m)) \<and> q \<in> set (proxies m) \<and> server q \<noteq> server p"
proof (cases "proxies (markDead p m) = []")
  case True
  then show ?thesis by (simp add: getNext_def)
next
  case False
  have ok: "currentIndex (markDead p m) < length (proxies (markDead p m))"
    using cursor_ok_markDead [of p m] False by (simp add: cursor_ok_def)
  let ?q = "proxies (markDead p m) ! currentIndex (markDead p m)"
  have mem: "?q \<in> set (proxies (markDead p m))" using ok by (rule nth_mem)
  then have "?q \<in> set (proxies m) \<and> server ?q \<noteq> server p"
    unfolding proxies_markDead by simp
  with mem show ?thesis by (simp add: getNext_in_range [OF ok])
qed

text \<open>
  Claim C4 (cursor invariant). From a pool whose cursor indexes an entry or that is empty,
  every sequence of \<^verbatim>\<open>getNext\<close> and \<^verbatim>\<open>markDead\<close> calls leaves a pool of that kind.
  \<^verbatim>\<open>markDead\<close> removes the entries with the dead proxy's canonical address and resets the
  cursor to 0 when it no longer indexes the shrunk list. The \<^verbatim>\<open>getNext\<close> call after a
  \<^verbatim>\<open>markDead\<close> returns the entry at the cursor, which is an entry that remains and not the
  removed one; it returns nothing exactly when no entry remains. No operation of the pool has
  a path that throws.
\<close>

theorem cursor_invariant:
  assumes "cursor_ok m"
  shows "cursor_ok (run_pool_ops ops m)
    \<and> proxies (markDead p m) = filter (\<lambda>q. server q \<noteq> server p) (proxies m)
    \<and> currentIndex (markDead p m)
        = (if currentIndex m \<ge> length (proxies (markDead p m)) then 0 else currentIndex m)
    \<and> (case fst (getNext (markDead p (run_pool_ops ops m))) of
          None \<Rightarrow> proxies (markDead p (run_pool_ops ops m)) = []
        | Some q \<Rightarrow>
            q = proxies (markDead p (run_pool_ops ops m))
                  ! currentIndex (markDead p (run_pool_ops ops m))
            \<and> q \<in> set (proxies (markDead p (run_pool_ops ops m)))
            \<and> q \<in> set (proxies m)
            \<and> server q \<noteq> server p)"
proof (intro conjI)
  show "cursor_ok (run_pool_ops ops m)" using assms by (rule cursor_ok_run)
  show "proxies (markDead p m) = filter (\<lambda>q. server q \<noteq> server p) (proxies m)"
    by (rule proxies_markDead)
  show "currentIndex (markDead p m)
        = (if currentIndex m \<ge> length (proxies (markDead p m)) then 0 else currentIndex m)"
    by (simp add: markDead_def Let_def)
  show "case fst (getNext (markDead p (run_pool_ops ops m))) of
          None \<Rightarrow> proxies (markDead p (run_pool_ops ops m)) = []
        | Some q \<Rightarrow>
            q = proxies (markDead p (run_pool_ops ops m))
                  ! currentIndex (markDead p (run_pool_ops ops m))
            \<and> q \<in> set (proxies (markDead p (run_pool_ops ops m)))
            \<and> q \<in> set (proxies m)
            \<and> server q \<noteq> server p"
    using getNext_after_markDead [of p "run_pool_ops ops m"] proxies_run_subset [of ops m]
    by (auto split: option.splits)
qed

theorem cursor_invariant_witness:
  "cursor_ok pool3
   \<and> run_pool_ops [OpGetNext, OpMarkDead proxyC] pool3 = \<lparr>proxies = [proxyA, proxyB], currentIndex = 0\<rparr>
   \<and> cursor_ok (run_pool_ops [OpGetNext, OpMarkDead proxyC] pool3)
   \<and> fst (getNext (markDead proxyA (run_pool_ops [OpGetNext, OpMarkDead proxyC] pool3))) = Some proxyB"
proof -
  have ok: "cursor_ok pool3" by (simp add: cursor_ok_def pool3_def)
  have sv: "server proxyA \<noteq> server proxyC" "server proxyB \<noteq> server proxyC"
    "server proxyB \<noteq> server proxyA"
    by (simp_all add: proxyA_def proxyB_def proxyC_def)
  have r: "run_pool_ops [OpGetNext, OpMarkDead proxyC] pool3
           = \<lparr>proxies = [proxyA, proxyB], currentIndex = 0\<rparr>"
    using sv by (simp add: pool3_def getNext_def markDead_def Let_def)
  have g: "fst (getNext (markDead proxyA \<lparr>proxies = [proxyA, proxyB], currentIndex = 0\<rparr>)) = Some proxyB"
    using sv by (simp add: getNext_def markDead_def Let_def)
  from cursor_invariant [OF ok, of "[OpGetNext, OpMarkDead proxyC]" proxyA]
  have "cursor_ok (run_pool_ops [OpGetNext, OpMarkDead proxyC] pool3)" by blast
  with ok r g show ?thesis by simp
qed

section \<open>Properties of the pool's initialisation\<close>

lemma concat_chunks: "0 < c \<Longrightarrow> concat (chunks c xs) = xs"
proof (induction c xs rule: chunks.induct)
  case (1 c xs)
  show ?case
  proof (cases "xs = []")
    case True
    then show ?thesis by (subst chunks.simps) simp
  next
    case False
    with "1.prems" have "concat (chunks c (drop c xs)) = drop c xs"
      by (intro "1.IH") auto
    with False "1.prems" show ?thesis
      by (subst chunks.simps) simp
  qed
qed

lemma filterWorkingProxies_default:
  "filterWorkingProxies check 3 ps = Some (filter check ps)"
proof -
  have "concat (map (filter check) (chunks 3 ps)) = filter check (concat (chunks 3 ps))"
    by (simp only: filter_concat)
  then show ?thesis
    by (simp add: filterWorkingProxies_def concat_chunks)
qed

lemma load_lines_skipped:
  "list_all blank_or_comment ls \<Longrightarrow> load_lines plat ls acc = acc"
  by (induction ls arbitrary: acc) (simp_all add: blank_or_comment_def Let_def)

lemma initialize_closed_form:
  "initialize fs plat check path m =
     Some (case loadProxies fs plat path of
             Inl e \<Rightarrow> (Some e, m)
           | Inr ps \<Rightarrow>
               if ps = [] then (None, m)
               else if filter check ps = []
               then (Some (Error ''No working proxies found! All proxies failed health check.''),
                     m\<lparr>proxies := []\<rparr>)
               else (None, m\<lparr>proxies := filter check ps\<rparr>))"
  by (simp add: initialize_def filterWorkingProxies_default Let_def split: sum.splits)

text \<open>
  Claim C5 (initialisation of the pool), as the code has it. A call of \<^verbatim>\<open>initialize\<close> on a
  new manager always returns or throws. It throws in exactly three cases: the file is
  missing (the loader's own error); the file exists and reading it fails (the error of the
  read is passed on); or at least one entry was parsed and no parsed entry passed the health
  check. A file whose lines are all blank or comments gives no exception and the empty pool.
  Whenever there is no exception, the pool is the list of the parsed entries that passed the
  health check, in file order.
\<close>

theorem initialize_failure_cases:
  "\<exists>err m'. initialize fs plat check path newProxyManager = Some (err, m')
     \<and> (err \<noteq> None \<longleftrightarrow>
          fs path = Absent
          \<or> (\<exists>e. fs path = Unreadable e)
          \<or> (\<exists>ps. loadProxies fs plat path = Inr ps \<and> ps \<noteq> [] \<and> filter check ps = []))
     \<and> (fs path = Absent \<longrightarrow> err = Some (Error (''Proxies file not found: '' @ path)))
     \<and> (\<forall>e. fs path = Unreadable e \<longrightarrow> err = Some e)
     \<and> ((\<exists>content. fs path = Readable content \<and> list_all blank_or_comment (split_lines content))
          \<longrightarrow> err = None \<and> proxies m' = [])
     \<and> (err = None \<longrightarrow>
          (\<exists>ps. loadProxies fs plat path = Inr ps \<and> proxies m' = filter check ps))"
proof (cases "fs path")
  case Absent
  then have lp: "loadProxies fs plat path = Inl (Error (''Proxies file not found: '' @ path))"
    by (simp add: loadProxies_def)
  have "initialize fs plat check path newProxyManager
          = Some (Some (Error (''Proxies file not found: '' @ path)), newProxyManager)"
    by (simp add: initialize_closed_form lp)
  with Absent show ?thesis by simp
next
  case (Unreadable e)
  then have lp: "loadProxies fs plat path = Inl e"
    by (simp add: loadProxies_def)
  have "initialize fs plat check path newProxyManager = Some (Some e, newProxyManager)"
    by (simp add: initialize_closed_form lp)
  with Unreadable show ?thesis by simp
next
  case (Readable content)
  let ?ps = "load_lines plat (split_lines content) []"
  have lp: "loadProxies fs plat path = Inr ?ps"
    using Readable by (simp add: loadProxies_def)
  have skip: "list_all blank_or_comment (split_lines content) \<Longrightarrow> ?ps = []"
    by (rule load_lines_skipped)
  consider (none_parsed) "?ps = []"
    | (dead) "?ps \<noteq> []" "filter check ?ps = []"
    | (alive) "?ps \<noteq> []" "filter check ?ps \<noteq> []"
    by blast
  then show ?thesis
  proof cases
    case none_parsed
    have "initialize fs plat check path newProxyManager = Some (None, newProxyManager)"
      by (simp add: initialize_closed_form lp none_parsed)
    moreover have "proxies newProxyManager = filter check ?ps"
      by (simp add: newProxyManager_def none_parsed)
    moreover have "proxies newProxyManager = []"
      by (simp add: newProxyManager_def)
    ultimately show ?thesis
      using Readable lp none_parsed by (intro exI conjI) auto
  next
    case dead
    let ?m = "newProxyManager\<lparr>proxies := []\<rparr>"
    let ?e = "Error ''No working proxies found! All proxies failed health check.''"
    have "initialize fs plat check path newProxyManager = Some (Some ?e, ?m)"
      using dead by (simp add: initialize_closed_form lp)
    moreover have "\<not> list_all blank_or_comment (split_lines content)"
      using skip dead(1) by blast
    ultimately show ?thesis
      using Readable lp dead by (intro exI [of _ "Some ?e"] exI [of _ ?m] conjI) auto
  next
    case alive
    let ?m = "newProxyManager\<lparr>proxies := filter check ?ps\<rparr>"
    have "initialize fs plat check path newProxyManager = Some (None, ?m)"
      using alive by (simp add: initialize_closed_form lp)
    moreover have "\<not> list_all blank_or_comment (split_lines content)"
      using skip alive(1) by blast
    ultimately show ?thesis
      using Readable lp alive by (intro exI [of _ None] exI [of _ ?m] conjI) auto
  qed
qed

lemma demo_proxy_file:
  "demo_fs ''/etc/proxies.txt''
     = Readable (''# pool'' @ [CHR 0x0D, CHR 0x0A] @ ''http://a.example:8080'' @ [CHR 0x0A]
             @ '' not a proxy '' @ [CHR 0x0A] @ ''socks5://c.example:1080'' @ [CHR 0x0A])"
  by (simp add: demo_fs_def)

lemma demo_proxy_lines:
  "split_lines (''# pool'' @ [CHR 0x0D, CHR 0x0A] @ ''http://a.example:8080'' @ [CHR 0x0A]
                @ '' not a proxy '' @ [CHR 0x0A] @ ''socks5://c.example:1080'' @ [CHR 0x0A])
     = [''# pool'', ''http://a.example:8080'', '' not a proxy '', ''socks5://c.example:1080'', []]"
  by (simp add: split_lines_def)

lemma demo_trims:
  "trim ''# pool'' = ''# pool''"
  "trim ''http://a.example:8080'' = ''http://a.example:8080''"
  "trim '' not a proxy '' = ''not a proxy''"
  "trim ''socks5://c.example:1080'' = ''socks5://c.example:1080''"
  "trim [] = []"
  by (simp_all add: trim_def js_whitespace_def)

lemma demo_parse_a: "parseProxyLine demo_platform ''http://a.example:8080'' = Inr proxyA"
  by (simp add: parseProxyLine_def demo_platform_def demo_url_def parseInt10_def js_whitespace_def
      is_digit_def Let_def proxyA_def show_int_def show_nat.simps digit_char_def)

lemma demo_parse_c: "parseProxyLine demo_platform ''socks5://c.example:1080'' = Inr proxyC"
  by (simp add: parseProxyLine_def demo_platform_def demo_url_def parseInt10_def js_whitespace_def
      is_digit_def Let_def proxyC_def show_int_def show_nat.simps digit_char_def)

lemma demo_parse_bad: "parseProxyLine demo_platform ''not a proxy'' = Inl (Error ''Invalid URL'')"
  by (simp add: parseProxyLine_def demo_platform_def)

lemma demo_load: "loadProxies demo_fs demo_platform ''/etc/proxies.txt'' = Inr [proxyA, proxyC]"
  by (simp add: loadProxies_def demo_proxy_file demo_proxy_lines demo_trims startsWith_def
      demo_parse_a demo_parse_c demo_parse_bad del: append.simps)

lemma demo_comment_lines:
  "demo_fs ''/etc/comments.txt'' = Readable (''# nothing here'' @ [CHR 0x0A] @ ''  '' @ [CHR 0x0A])"
  "list_all blank_or_comment (split_lines (''# nothing here'' @ [CHR 0x0A] @ ''  '' @ [CHR 0x0A]))"
  by (simp_all add: demo_fs_def split_lines_def blank_or_comment_def trim_def js_whitespace_def
      startsWith_def)

theorem initialize_failure_cases_witness:
  "initialize demo_fs demo_platform demo_check ''/etc/proxies.txt'' newProxyManager
     = Some (None, \<lparr>proxies = [proxyA], currentIndex = 0\<rparr>)
   \<and> initialize demo_fs demo_platform (\<lambda>p. False) ''/etc/proxies.txt'' newProxyManager
     = Some (Some (Error ''No working proxies found! All proxies failed health check.''),
             \<lparr>proxies = [], currentIndex = 0\<rparr>)
   \<and> demo_fs ''/etc/missing.txt'' = Absent
   \<and> initialize demo_fs demo_platform demo_check ''/etc/missing.txt'' newProxyManager
     = Some (Some (Error ''Proxies file not found: /etc/missing.txt''), newProxyManager)
   \<and> demo_fs ''/etc/comments.txt''
     = Readable (''# nothing here'' @ [CHR 0x0A] @ ''  '' @ [CHR 0x0A])
   \<and> list_all blank_or_comment (split_lines (''# nothing here'' @ [CHR 0x0A] @ ''  '' @ [CHR 0x0A]))
   \<and> fst (the (initialize demo_fs demo_platform demo_check ''/etc/comments.txt'' newProxyManager))
     = None
   \<and> proxies (snd (the (initialize demo_fs demo_platform demo_check ''/etc/comments.txt''
                           newProxyManager))) = []"
proof -
  have chk: "demo_check proxyA" "\<not> demo_check proxyC"
    by (simp_all add: demo_check_def proxyA_def proxyC_def)
  have one: "initialize demo_fs demo_platform demo_check ''/etc/proxies.txt'' newProxyManager
     = Some (None, \<lparr>proxies = [proxyA], currentIndex = 0\<rparr>)"
    by (simp add: initialize_closed_form demo_load chk newProxyManager_def)
  have two: "initialize demo_fs demo_platform (\<lambda>p. False) ''/etc/proxies.txt'' newProxyManager
     = Some (Some (Error ''No working proxies found! All proxies failed health check.''),
             \<lparr>proxies = [], currentIndex = 0\<rparr>)"
    by (simp add: initialize_closed_form demo_load newProxyManager_def)
  have missing: "demo_fs ''/etc/missing.txt'' = Absent"
    by (simp add: demo_fs_def)
  have three: "initialize demo_fs demo_platform demo_check ''/etc/missing.txt'' newProxyManager
     = Some (Some (Error ''Proxies file not found: /etc/missing.txt''), newProxyManager)"
    by (simp add: initialize_closed_form loadProxies_def missing)
  from initialize_failure_cases [of demo_fs demo_platform demo_check "''/etc/comments.txt''"]
  obtain err m' where
    r: "initialize demo_fs demo_platform demo_check ''/etc/comments.txt'' newProxyManager
          = Some (err, m')"
    and e: "err = None \<and> proxies m' = []"
    using demo_comment_lines by blast
  from r e
  have "fst (the (initialize demo_fs demo_platform demo_check ''/etc/comments.txt'' newProxyManager))
          = None
      \<and> proxies (snd (the (initialize demo_fs demo_platform demo_check ''/etc/comments.txt''
                              newProxyManager))) = []"
    by simp
  with one two missing three demo_comment_lines show ?thesis by (simp del: append.simps)
qed

text \<open>
  The claim as stated, with two failure cases, does not hold: for the path of a directory
  the existence test passes and the read throws, so that \<^verbatim>\<open>initialize\<close> throws although the
  file is not missing and no entry was parsed.
\<close>

theorem initialize_read_error_counterexample:
  "demo_fs ''/etc'' \<noteq> Absent
   \<and> initialize demo_fs demo_platform demo_check ''/etc'' newProxyManager
     = Some (Some (Error ''EISDIR: illegal operation on a directory, read''), newProxyManager)
   \<and> \<not> (\<exists>ps. loadProxies demo_fs demo_platform ''/etc'' = Inr ps \<and> ps \<noteq> []
               \<and> filter demo_check ps = [])"
  by (simp add: initialize_closed_form loadProxies_def demo_fs_def)

section \<open>Properties of the action scheduler\<close>

lemma performRandomAction_dispatch:
  "performRandomAction api plat rnd cur ls =
     block_of (selected_kind (rnd (draws (world ls)))) api plat rnd cur
       (ls\<lparr>world := (world ls)\<lparr>draws := draws (world ls) + 1\<rparr>\<rparr>)"
  by (simp add: performRandomAction_def bnd_def in_world_def random_def selected_kind_def)

lemma selected_kind_thresholds:
  "(selected_kind r = Scroll \<longleftrightarrow> r < lit (25 / 100))"
  "(selected_kind r = Hover \<longleftrightarrow> lit (25 / 100) \<le> r \<and> r < lit (37 / 100))"
  "(selected_kind r = Type \<longleftrightarrow> lit (37 / 100) \<le> r \<and> r < lit (45 / 100))"
  "(selected_kind r = Click \<longleftrightarrow> lit (45 / 100) \<le> r \<and> r < lit (63 / 100))"
  "(selected_kind r = Back \<longleftrightarrow> lit (63 / 100) \<le> r \<and> r < lit (71 / 100))"
  "(selected_kind r = Media \<longleftrightarrow> lit (71 / 100) \<le> r \<and> r < lit (78 / 100))"
  "(selected_kind r = Zoom \<longleftrightarrow> lit (78 / 100) \<le> r \<and> r < lit (85 / 100))"
  "(selected_kind r = Idle \<longleftrightarrow> lit (85 / 100) \<le> r)"
  unfolding selected_kind_def lit_values by (auto split: if_splits)

lemma selected_kind_interval:
  "{x. unit_interval x \<and> selected_kind x = k} = {kind_lower k ..< kind_upper k}"
  by (cases k) (auto simp: selected_kind_thresholds unit_interval_def lit_values)

lemma threshold_close: "\<bar>kind_lower k - weight_before k\<bar> < 1 / 2 ^ 54"
  by (cases k) (simp_all add: weight_before_def all_kinds_def lit_values)

lemma kind_length_close:
  "\<bar>(kind_upper k - kind_lower k) - documented_weight k\<bar> < 1 / 2 ^ 53"
  by (cases k) (simp_all add: lit_values)

lemma kind_lengths_sum: "sum_list (map (\<lambda>k. kind_upper k - kind_lower k) all_kinds) = 1"
  by (simp add: all_kinds_def)

lemma weights_sum: "sum_list (map documented_weight all_kinds) = 1"
  by (simp add: all_kinds_def)

text \<open>
  Claim C1 (selection by cumulative thresholds), as the code has it. \<^verbatim>\<open>performRandomAction\<close>
  makes one draw and runs the block of exactly one kind, the kind \<open>selected_kind\<close> gives for
  the draw: scroll below the first threshold, hover between the first and the second, and so
  on to idle from the last threshold on. The thresholds are the doubles the literals 0.25,
  0.37, 0.45, 0.63, 0.71, 0.78 and 0.85 denote; 0.25 is exact, every other one differs from
  the decimal it is written as by less than \<open>2\<^sup>-\<^sup>5\<^sup>4\<close>, and 0.37, 0.71 and 0.85 lie below their
  decimals. The draws in \<open>[0, 1)\<close> that select a kind form a half-open interval between two
  thresholds; its length, the probability of the kind under a uniform draw, differs from the
  documented weight of the kind (0.25, 0.12, 0.08, 0.18, 0.08, 0.07, 0.07, 0.15) by less than
  \<open>2\<^sup>-\<^sup>5\<^sup>3\<close>. The lengths add up to 1, and so do the documented weights.
\<close>

theorem action_selection_by_thresholds:
  "performRandomAction api plat rnd cur ls
           = block_of (selected_kind (rnd (draws (world ls)))) api plat rnd cur
               (ls\<lparr>world := (world ls)\<lparr>draws := draws (world ls) + 1\<rparr>\<rparr>)
    \<and> (selected_kind (rnd (draws (world ls))) = Scroll
         \<longleftrightarrow> rnd (draws (world ls)) < lit (25 / 100))
    \<and> (selected_kind (rnd (draws (world ls))) = Hover
         \<longleftrightarrow> lit (25 / 100) \<le> rnd (draws (world ls)) \<and> rnd (draws (world ls)) < lit (37 / 100))
    \<and> (selected_kind (rnd (draws (world ls))) = Type
         \<longleftrightarrow> lit (37 / 100) \<le> rnd (draws (world ls)) \<and> rnd (draws (world ls)) < lit (45 / 100))
    \<and> (selected_kind (rnd (draws (world ls))) = Click
         \<longleftrightarrow> lit (45 / 100) \<le> rnd (draws (world ls)) \<and> rnd (draws (world ls)) < lit (63 / 100))
    \<and> (selected_kind (rnd (draws (world ls))) = Back
         \<longleftrightarrow> lit (63 / 100) \<le> rnd (draws (world ls)) \<and> rnd (draws (world ls)) < lit (71 / 100))
    \<and> (selected_kind (rnd (draws (world ls))) = Media
         \<longleftrightarrow> lit (71 / 100) \<le> rnd (draws (world ls)) \<and> rnd (draws (world ls)) < lit (78 / 100))
    \<and> (selected_kind (rnd (draws (world ls))) = Zoom
         \<longleftrightarrow> lit (78 / 100) \<le> rnd (draws (world ls)) \<and> rnd (draws (world ls)) < lit (85 / 100))
    \<and> (selected_kind (rnd (draws (world ls))) = Idle \<longleftrightarrow> lit (85 / 100) \<le> rnd (draws (world ls)))
    \<and> lit (25 / 100) = 1 / 4
    \<and> lit (37 / 100) = 3332663724254167 / 2 ^ 53
    \<and> lit (45 / 100) = 8106479329266893 / 2 ^ 54
    \<and> lit (63 / 100) = 5674535530486825 / 2 ^ 53
    \<and> lit (71 / 100) = 799388933858263 / 2 ^ 50
    \<and> lit (78 / 100) = 3512807709348987 / 2 ^ 52
    \<and> lit (85 / 100) = 7656119366529843 / 2 ^ 53
    \<and> lit (37 / 100) < 37 / 100 \<and> lit (71 / 100) < 71 / 100 \<and> lit (85 / 100) < 85 / 100
    \<and> (\<forall>k. {x. unit_interval x \<and> selected_kind x = k} = {kind_lower k ..< kind_upper k})
    \<and> (\<forall>k. \<bar>kind_lower k - weight_before k\<bar> < 1 / 2 ^ 54)
    \<and> (\<forall>k. \<bar>(kind_upper k - kind_lower k) - documented_weight k\<bar> < 1 / 2 ^ 53)
    \<and> sum_list (map (\<lambda>k. kind_upper k - kind_lower k) all_kinds) = 1
    \<and> map documented_weight all_kinds
         = [25 / 100, 12 / 100, 8 / 100, 18 / 100, 8 / 100, 7 / 100, 7 / 100, 15 / 100]
    \<and> sum_list (map documented_weight all_kinds) = 1"
proof -
  have below: "lit (37 / 100) < 37 / 100" "lit (71 / 100) < 71 / 100" "lit (85 / 100) < 85 / 100"
    unfolding lit_values by simp_all
  have weights: "map documented_weight all_kinds
         = [25 / 100, 12 / 100, 8 / 100, 18 / 100, 8 / 100, 7 / 100, 7 / 100, 15 / 100]"
    by (simp add: all_kinds_def)
  show ?thesis
    using selected_kind_thresholds [of "rnd (draws (world ls))"] selected_kind_interval
      threshold_close kind_length_close kind_lengths_sum weights weights_sum below
      lit_quarter lit_037 lit_045 lit_063 lit_071 lit_078 lit_085
      performRandomAction_dispatch [of api plat rnd cur ls]
    by blast
qed

text \<open>
  The claim as stated, with the thresholds and the probabilities as decimal fractions, does
  not hold: the double 0.71 is a draw in \<open>[0.63, 0.71)\<close>, where the claim selects back, and
  the scheduler runs the media block for it.
\<close>

theorem threshold_counterexample:
  "63 / 100 \<le> lit (71 / 100) \<and> lit (71 / 100) < 71 / 100
   \<and> unit_double (lit (71 / 100))
   \<and> selected_kind (lit (71 / 100)) = Media
   \<and> actions (snd (performRandomAction demo_media_api demo_platform (\<lambda>n. lit (71 / 100))
                      ''https://site.example/'' (demo_state demo_home)))
       = [(''MEDIA'', ''Played video'', ''https://site.example/'')]"
proof -
  have v: "63 / 100 \<le> lit (71 / 100)" "lit (71 / 100) < 71 / 100"
    unfolding lit_values by simp_all
  have u: "unit_double (lit (71 / 100))"
    unfolding lit_071 using unit_double_dyadic [of 799388933858263 50] by simp
  have k: "selected_kind (lit (71 / 100)) = Media"
    unfolding selected_kind_thresholds unfolding lit_values by simp
  have a: "actions (snd (performRandomAction demo_media_api demo_platform (\<lambda>n. lit (71 / 100))
                      ''https://site.example/'' (demo_state demo_home)))
       = [(''MEDIA'', ''Played video'', ''https://site.example/'')]"
    by (simp add: performRandomAction_dispatch k mediaBlock_def humanMedia_def demo_media_api_def
        try_catch_def bnd_def ret_def in_world_def truthy_def recordAction_def demo_state_def)
  from v u k a show ?thesis by simp
qed

section \<open>Which handlers can throw, and the flag of each block\<close>

lemma returns_normallyE:
  assumes "returns_normally m s"
  obtains v s' where "m s = (Inr v, s')"
  using assms by (cases "m s"; cases "fst (m s)") (auto simp: returns_normally_def)

lemma returns_normallyI: "m s = (Inr v, s') \<Longrightarrow> returns_normally m s"
  by (simp add: returns_normally_def)

lemma returns_ret: "returns_normally (ret a) s"
  by (simp add: returns_normally_def ret_def)

lemma returns_bnd:
  assumes "returns_normally m s"
    and "\<And>v s'. m s = (Inr v, s') \<Longrightarrow> returns_normally (f v) s'"
  shows "returns_normally (bnd m f) s"
proof -
  from assms(1) obtain v s' where ms: "m s = (Inr v, s')" by (rule returns_normallyE)
  then have "bnd m f s = f v s'" by (simp add: bnd_def)
  with assms(2) [OF ms] show ?thesis by (simp add: returns_normally_def)
qed

lemma returns_try_catch: "returns_normally (try_catch m (\<lambda>e. ret a)) s"
  by (simp add: returns_normally_def try_catch_def ret_def split: prod.splits sum.splits)

lemma humanClick_returns: "returns_normally (humanClick api) w"
  unfolding humanClick_def by (rule returns_try_catch)

lemma humanMedia_returns: "returns_normally (humanMedia api) w"
  unfolding humanMedia_def by (rule returns_try_catch)

lemma humanZoom_returns: "returns_normally (humanZoom api) w"
  unfolding humanZoom_def by (rule returns_try_catch)

lemma humanBack_returns: "returns_normally (humanBack api rnd) w"
  unfolding humanBack_def by (rule returns_try_catch)

lemma returns_beside_counter:
  assumes "\<And>w. returns_normally m w"
  shows "returns_normally (beside_counter m) s"
proof (cases s)
  case (Pair n w)
  from assms [of w] obtain v w' where "m w = (Inr v, w')" by (rule returns_normallyE)
  with Pair show ?thesis by (simp add: returns_normally_def beside_counter_def)
qed

lemma pickRandom_returns: "returns_normally (pickRandom rnd arr) w"
  by (simp add: returns_normally_def pickRandom_def ret_def bnd_def randomInt_apply)

lemma hoverLoop_returns: "returns_normally (hoverLoop api rnd k) s"
proof (induction k arbitrary: s)
  case 0
  show ?case by (simp add: returns_ret)
next
  case (Suc k)
  show ?case
    unfolding hoverLoop.simps
  proof (intro returns_bnd)
    show "returns_normally (beside_counter (pickRandom rnd HOVERABLE_SELECTORS)) s"
      by (intro returns_beside_counter pickRandom_returns)
  next
    fix v s'
    show "returns_normally (case v of None \<Rightarrow> ret ()
          | Some sel \<Rightarrow> if sel = [] then ret () else try_catch (hoverBody api rnd sel) (\<lambda>e. ret ())) s'"
      by (cases v) (simp_all add: returns_ret returns_try_catch)
  next
    fix s''
    show "returns_normally (hoverLoop api rnd k) s''" by (rule Suc.IH)
  qed
qed

lemma humanHover_returns: "returns_normally (humanHover api rnd) w"
proof -
  let ?w = "w\<lparr>draws := draws w + 1\<rparr>"
  let ?n = "nat (randomInt_of (rnd (draws w)) 1 4)"
  obtain u n w' where "hoverLoop api rnd ?n (0, ?w) = (Inr u, (n, w'))"
    using hoverLoop_returns [of api rnd ?n "(0, ?w)"]
    by (metis returns_normallyE surj_pair)
  then show ?thesis
    by (simp add: returns_normally_def humanHover_def bnd_def randomInt_apply)
qed

text \<open>The flag of each block, from the outcome of its handler.\<close>

lemma scrollBlock_flag:
  "fst (scrollBlock api plat rnd cur ls)
     = (case fst (humanScroll api plat rnd (world ls)) of Inl e \<Rightarrow> Inl e | Inr v \<Rightarrow> Inr False)"
  by (simp add: scrollBlock_def bnd_def in_world_def recordAction_def ret_def
      split: prod.splits sum.splits)

lemma idleBlock_flag:
  "fst (idleBlock api cur ls)
     = (case fst (humanIdle api (world ls)) of Inl e \<Rightarrow> Inl e | Inr v \<Rightarrow> Inr False)"
  by (simp add: idleBlock_def bnd_def in_world_def recordAction_def ret_def
      split: prod.splits sum.splits)

lemma hoverBlock_flag: "fst (hoverBlock api rnd cur ls) = Inr False"
  using humanHover_returns [of api rnd "world ls"]
  by (auto simp: returns_normally_def hoverBlock_def bnd_def in_world_def recordAction_def ret_def
      split: prod.splits sum.splits)

lemma mediaBlock_flag: "fst (mediaBlock api cur ls) = Inr False"
  using humanMedia_returns [of api "world ls"]
  by (auto simp: returns_normally_def mediaBlock_def bnd_def in_world_def recordAction_def ret_def
      split: prod.splits sum.splits)

lemma zoomBlock_flag: "fst (zoomBlock api cur ls) = Inr False"
  using humanZoom_returns [of api "world ls"]
  by (auto simp: returns_normally_def zoomBlock_def bnd_def in_world_def recordAction_def ret_def
      split: prod.splits sum.splits)

lemma typeBlock_flag:
  "fst (typeBlock api rnd cur ls)
     = (case humanType api rnd (world ls) of
          (Inl e, w') \<Rightarrow> Inl e
        | (Inr typed, w') \<Rightarrow> Inr (typed \<and> page_url api (page w') \<noteq> cur))"
  by (simp add: typeBlock_def bnd_def in_world_def recordAction_def ret_def urlChanged_def Let_def
      split: prod.splits sum.splits)

lemma clickBlock_flag:
  "fst (clickBlock api cur ls)
     = (case humanClick api (world ls) of
          (Inl e, w') \<Rightarrow> Inl e
        | (Inr clicked, w') \<Rightarrow> Inr (truthy clicked \<and> page_url api (page w') \<noteq> cur))"
  by (simp add: clickBlock_def bnd_def in_world_def recordAction_def ret_def urlChanged_def Let_def
      split: prod.splits sum.splits)

lemma backBlock_flag:
  "fst (backBlock api rnd cur ls)
     = (case fst (humanBack api rnd (world ls)) of Inl e \<Rightarrow> Inl e | Inr b \<Rightarrow> Inr (truthy b))"
  by (simp add: backBlock_def bnd_def in_world_def recordAction_def ret_def
      split: prod.splits sum.splits)

lemma on_page_url:
  "on_page m w = (r, w') \<Longrightarrow> draws w' = draws w"
  by (auto simp: on_page_def split: prod.splits)

lemma humanBack_Some:
  assumes "humanBack api rnd w = (Inr (Some u), w')"
  shows "startsWith (page_url api (page w)) ''http'' \<and> startsWith u ''http''
         \<and> u = page_url api (page w') \<and> u \<noteq> page_url api (page w)"
  using assms
  by (auto simp: humanBack_def try_catch_def bnd_def ret_def current_url_def humanDelay_apply
      split: prod.splits sum.splits if_splits)

text \<open>
  The flag of an invocation, kind by kind. Let \<open>r\<close> be the draw of the invocation, \<open>ls1\<close>
  the state after the draw and \<open>flag\<close> what the invocation returns or throws. For hover,
  media and zoom the flag is \<^verbatim>\<open>false\<close>. For scroll and idle it is \<^verbatim>\<open>false\<close> when the handler
  returns, and the exception of the handler when it throws. For type and for click the flag
  is \<^verbatim>\<open>true\<close> exactly when the handler reports success and the URL of the page after the
  handler differs from \<^verbatim>\<open>currentUrl\<close>, the URL the caller captured before. For back the flag
  is \<^verbatim>\<open>true\<close> exactly when \<^verbatim>\<open>humanBack\<close> returns a URL, which is then an http URL, the URL
  of the page after the back navigation, and different from the URL before it.
\<close>

lemma navigation_flag_by_kind:
  assumes "r = rnd (draws (world ls))"
    and "ls1 = ls\<lparr>world := (world ls)\<lparr>draws := draws (world ls) + 1\<rparr>\<rparr>"
    and "flag = fst (performRandomAction api plat rnd cur ls)"
  shows "(selected_kind r \<in> {Scroll, Hover, Media, Zoom, Idle} \<longrightarrow> flag \<noteq> Inr True)
    \<and> (selected_kind r \<in> {Hover, Media, Zoom} \<longrightarrow> flag = Inr False)
    \<and> (selected_kind r = Scroll \<longrightarrow>
          flag = (case fst (humanScroll api plat rnd (world ls1)) of
                    Inl e \<Rightarrow> Inl e | Inr v \<Rightarrow> Inr False))
    \<and> (selected_kind r = Idle \<longrightarrow>
          flag = (case fst (humanIdle api (world ls1)) of
                    Inl e \<Rightarrow> Inl e | Inr v \<Rightarrow> Inr False))
    \<and> (selected_kind r = Type \<longrightarrow>
          (flag = Inr True \<longleftrightarrow>
             (\<exists>w'. humanType api rnd (world ls1) = (Inr True, w')
                   \<and> page_url api (page w') \<noteq> cur)))
    \<and> (selected_kind r = Click \<longrightarrow>
          (flag = Inr True \<longleftrightarrow>
             (\<exists>clicked w'. humanClick api (world ls1) = (Inr clicked, w')
                   \<and> truthy clicked \<and> page_url api (page w') \<noteq> cur)))
    \<and> (selected_kind r = Back \<longrightarrow>
          (flag = Inr True \<longleftrightarrow>
             (\<exists>u w'. humanBack api rnd (world ls1) = (Inr (Some u), w')
                   \<and> startsWith u ''http'' \<and> u = page_url api (page w')
                   \<and> u \<noteq> page_url api (page (world ls1)))))"
proof -
  have flag: "flag = fst (block_of (selected_kind r) api plat rnd cur ls1)"
    unfolding assms by (simp add: performRandomAction_dispatch)
  have w1: "world ls1 = (world ls)\<lparr>draws := draws (world ls) + 1\<rparr>"
    unfolding assms by simp
  have k_scroll: "selected_kind r = Scroll \<Longrightarrow>
          flag = (case fst (humanScroll api plat rnd (world ls1)) of
                    Inl e \<Rightarrow> Inl e | Inr v \<Rightarrow> Inr False)"
    by (simp add: flag scrollBlock_flag)
  have k_idle: "selected_kind r = Idle \<Longrightarrow>
          flag = (case fst (humanIdle api (world ls1)) of
                    Inl e \<Rightarrow> Inl e | Inr v \<Rightarrow> Inr False)"
    by (simp add: flag idleBlock_flag)
  have k_quiet: "selected_kind r \<in> {Hover, Media, Zoom} \<Longrightarrow> flag = Inr False"
    by (auto simp: flag hoverBlock_flag mediaBlock_flag zoomBlock_flag)
  have k_never: "selected_kind r \<in> {Scroll, Hover, Media, Zoom, Idle} \<Longrightarrow> flag \<noteq> Inr True"
    using k_scroll k_idle k_quiet by (auto split: sum.splits)
  have k_type: "selected_kind r = Type \<Longrightarrow>
          (flag = Inr True \<longleftrightarrow>
             (\<exists>w'. humanType api rnd (world ls1) = (Inr True, w')
                   \<and> page_url api (page w') \<noteq> cur))"
    by (cases "humanType api rnd (world ls1)"; cases "fst (humanType api rnd (world ls1))")
       (auto simp: flag typeBlock_flag)
  have k_click: "selected_kind r = Click \<Longrightarrow>
          (flag = Inr True \<longleftrightarrow>
             (\<exists>clicked w'. humanClick api (world ls1) = (Inr clicked, w')
                   \<and> truthy clicked \<and> page_url api (page w') \<noteq> cur))"
    by (cases "humanClick api (world ls1)"; cases "fst (humanClick api (world ls1))")
       (auto simp: flag clickBlock_flag)
  have k_back: "selected_kind r = Back \<Longrightarrow>
          (flag = Inr True \<longleftrightarrow>
             (\<exists>u w'. humanBack api rnd (world ls1) = (Inr (Some u), w')
                   \<and> startsWith u ''http'' \<and> u = page_url api (page w')
                   \<and> u \<noteq> page_url api (page (world ls1))))"
  proof -
    assume k: "selected_kind r = Back"
    obtain b w' where hb: "humanBack api rnd (world ls1) = (Inr b, w')"
      using humanBack_returns [of api rnd "world ls1"] by (rule returns_normallyE)
    have fl: "flag = Inr (truthy b)"
      by (simp add: flag k backBlock_flag hb)
    show ?thesis
    proof
      assume "flag = Inr True"
      with fl have "truthy b" by simp
      then obtain u where b: "b = Some u" by (cases b) (simp_all add: truthy_def)
      from humanBack_Some [OF hb [unfolded b]] hb b show
        "\<exists>u w'. humanBack api rnd (world ls1) = (Inr (Some u), w')
                   \<and> startsWith u ''http'' \<and> u = page_url api (page w')
                   \<and> u \<noteq> page_url api (page (world ls1))"
        by blast
    next
      assume "\<exists>u w'. humanBack api rnd (world ls1) = (Inr (Some u), w')
                   \<and> startsWith u ''http'' \<and> u = page_url api (page w')
                   \<and> u \<noteq> page_url api (page (world ls1))"
      then obtain u where "b = Some u" and "startsWith u ''http''"
        using hb by auto
      then have "truthy b" by (auto simp: truthy_def startsWith_def)
      with fl show "flag = Inr True" by simp
    qed
  qed
  from k_never k_quiet k_scroll k_idle k_type k_click k_back show ?thesis by blast
qed

lemma demo_roundings:
  "round_double (25 / 4) = 25 / 4"
  "round_double (35 / 8) = 35 / 8"
  "round_double (3 / 4) = 3 / 4"
  "round_double (401 / 8) = 401 / 8"
  using round_double_dyadic [of 25 2] round_double_dyadic [of 35 3]
    round_double_dyadic [of 3 2] round_double_dyadic [of 401 3]
  by simp_all

lemma demo_indices:
  "randomInt_of (5 / 8) 0 9 = 6"
  "randomInt_of (7 / 8) (- 2) 2 = 2"
  "randomInt_of (1 / 8) 3 8 = 3"
  "randomInt_of (1 / 8) 100 500 = 150"
  by (simp_all add: randomInt_of_def demo_roundings floor_eq_iff)

lemma demo_roll_04:
  "selected_kind (lit (2 / 5)) = Type"
  "unit_double (lit (2 / 5))"
  "randomInt_of (lit (2 / 5)) 0 9 = 4"
proof -
  show "selected_kind (lit (2 / 5)) = Type"
    unfolding selected_kind_thresholds unfolding lit_values by simp
  show "unit_double (lit (2 / 5))"
    unfolding lit_04 using unit_double_dyadic [of 3602879701896397 53] by simp
  have "round_double (3602879701896397 / 2 ^ 53 * 10) = of_int 4503599627370496 * 2 powi (2 - 52)"
    by (rule round_double_eqI) (simp_all add: power_int_minus)
  then have "round_double (3602879701896397 / 2 ^ 53 * 10) = 4"
    by (simp add: power_int_minus)
  then show "randomInt_of (lit (2 / 5)) 0 9 = 4"
    by (simp add: randomInt_of_def lit_04)
qed

lemma demo_type_submits:
  "humanType demo_api (\<lambda>n. if n = 0 then 7 / 16 else 5 / 8) \<lparr>page = demo_home, draws = 1\<rparr>
     = (Inr True,
        \<lparr>page = \<lparr>dp_url = ''https://site.example/search'',
                  dp_history = [''https://site.example/''],
                  dp_keys = [KeyType ''n'', KeyType ''e'', KeyType ''w'', KeyType ''s'', KeyPress ''Enter''],
                  dp_overlay = False\<rparr>,
         draws = 21\<rparr>)"
  by (simp add: humanType_def INPUT_SELECTORS_def SEARCH_TERMS_def bnd_def try_catch_def
      on_page_def ret_def demo_api_def pickRandom_def randomInt_def random_def demo_indices
      js_index_def humanDelay_def gaussianDraws_def typeChar_def humanTypingDelay_def typeTypo_def
      demo_home_def demo_visit_def lit_values)

lemma navigation_flag_demo:
  "selected_kind (7 / 16) = Type
   \<and> fst (performRandomAction demo_api demo_platform (\<lambda>n. if n = 0 then 7 / 16 else 5 / 8)
            ''https://site.example/'' (demo_state demo_home)) = Inr True
   \<and> selected_kind (5 / 16) = Hover
   \<and> fst (performRandomAction demo_api demo_platform (\<lambda>n. 5 / 16)
            ''https://site.example/'' (demo_state demo_home)) = Inr False"
proof -
  let ?rnd = "\<lambda>n::nat. if n = 0 then 7 / 16 else (5 / 8 :: rat)"
  let ?ls = "demo_state demo_home"
  have kinds: "selected_kind (7 / 16) = Type" "selected_kind (5 / 16) = Hover"
    unfolding selected_kind_thresholds unfolding lit_values by simp_all
  have k: "selected_kind (?rnd (draws (world ?ls))) = Type"
    by (simp add: kinds demo_state_def)
  have w: "world (?ls\<lparr>world := (world ?ls)\<lparr>draws := draws (world ?ls) + 1\<rparr>\<rparr>)
             = \<lparr>page = demo_home, draws = 1\<rparr>"
    by (simp add: demo_state_def)
  have u: "page_url demo_api \<lparr>dp_url = ''https://site.example/search'',
                  dp_history = [''https://site.example/''],
                  dp_keys = [KeyType ''n'', KeyType ''e'', KeyType ''w'', KeyType ''s'', KeyPress ''Enter''],
                  dp_overlay = False\<rparr> \<noteq> ''https://site.example/''"
    by (simp add: demo_api_def)
  have one: "fst (performRandomAction demo_api demo_platform ?rnd ''https://site.example/'' ?ls)
               = Inr True"
    using navigation_flag_by_kind [OF refl refl refl, of ?rnd ?ls demo_api demo_platform
        "''https://site.example/''"] k demo_type_submits u
    unfolding w by auto
  have k2: "selected_kind ((\<lambda>n::nat. 5 / 16 :: rat) (draws (world ?ls))) = Hover"
    by (simp add: kinds)
  have two: "fst (performRandomAction demo_api demo_platform (\<lambda>n. 5 / 16)
               ''https://site.example/'' ?ls) = Inr False"
    using navigation_flag_by_kind [OF refl refl refl, of "\<lambda>n. 5 / 16" ?ls demo_api demo_platform
        "''https://site.example/''"] k2
    by simp
  from kinds one two show ?thesis by simp
qed

text \<open>
  Claim C6 (navigation flag). The claim does not hold of the code for the kinds scroll and
  idle: \<^verbatim>\<open>humanScroll\<close> and \<^verbatim>\<open>humanIdle\<close> have no \<^verbatim>\<open>try\<close>, and neither has
  \<^verbatim>\<open>performRandomAction\<close>, so that an exception of the page inside the handler leaves the
  scheduler and no flag is returned, where the claim has \<^verbatim>\<open>false\<close> whatever the outcome of
  the action. On a page the browser has closed, the roll 0.125 selects scroll and the first
  \<^verbatim>\<open>page.mouse.wheel\<close> throws; the roll 0.875 selects idle and its handler throws. For the
  other kinds the flag is as the claim says (\<open>navigation_flag_by_kind\<close> above). This is the
  missing guard of claim C2, in two other handlers.
\<close>

theorem scroll_idle_failure_no_flag:
  "selected_kind (1 / 8) = Scroll \<and> unit_double (1 / 8)
   \<and> fst (performRandomAction demo_closed_api demo_platform (\<lambda>n. 1 / 8) ''https://site.example/''
            (demo_state demo_home))
       = Inl (Error ''mouse.wheel: Target page, context or browser has been closed'')
   \<and> selected_kind (7 / 8) = Idle \<and> unit_double (7 / 8)
   \<and> fst (performRandomAction demo_closed_api demo_platform (\<lambda>n. 7 / 8) ''https://site.example/''
            (demo_state demo_home))
       = Inl (Error ''mouse.move: Target page, context or browser has been closed'')"
proof -
  have kinds: "selected_kind (1 / 8) = Scroll" "selected_kind (7 / 8) = Idle"
    unfolding selected_kind_thresholds unfolding lit_values by simp_all
  have doubles: "unit_double (1 / 8)" "unit_double (7 / 8)"
    using unit_double_dyadic [of 1 3] unit_double_dyadic [of 7 3] by simp_all
  have scroll: "fst (humanScroll demo_closed_api demo_platform (\<lambda>n. 1 / 8)
                       \<lparr>page = demo_home, draws = 1\<rparr>)
       = Inl (Error ''mouse.wheel: Target page, context or browser has been closed'')"
    by (simp add: humanScroll_def bnd_def randomInt_def random_def ret_def demo_indices
        numeral_3_eq_3 on_page_def demo_closed_api_def throw_def lit_values)
  have idle: "fst (humanIdle demo_closed_api \<lparr>page = demo_home, draws = 1\<rparr>)
       = Inl (Error ''mouse.move: Target page, context or browser has been closed'')"
    by (simp add: humanIdle_def demo_closed_api_def throw_def)
  have one: "fst (performRandomAction demo_closed_api demo_platform (\<lambda>n. 1 / 8)
                    ''https://site.example/'' (demo_state demo_home))
       = Inl (Error ''mouse.wheel: Target page, context or browser has been closed'')"
    using scroll
    by (simp add: performRandomAction_dispatch kinds scrollBlock_flag demo_state_def)
  have two: "fst (performRandomAction demo_closed_api demo_platform (\<lambda>n. 7 / 8)
                    ''https://site.example/'' (demo_state demo_home))
       = Inl (Error ''mouse.move: Target page, context or browser has been closed'')"
    using idle
    by (simp add: performRandomAction_dispatch kinds idleBlock_flag demo_state_def)
  from kinds doubles one two show ?thesis by simp
qed

text \<open>
  Claim C2 (no exception passes the scheduler). The claim does not hold of the code:
  \<^verbatim>\<open>performRandomAction\<close> has no \<^verbatim>\<open>try\<close>, and \<^verbatim>\<open>humanType\<close> guards only its search for
  the input. On a page whose search box is visible and covered by an overlay, the click on
  the box times out, and the exception leaves \<^verbatim>\<open>humanType\<close> and \<^verbatim>\<open>performRandomAction\<close>.
  The roll is the double 0.4. The kinds hover, click, back, media and zoom do catch every
  exception of their handlers (\<open>guarded_kinds_return\<close> below).
\<close>

theorem type_failure_escapes_scheduler:
  "selected_kind (lit (2 / 5)) = Type
   \<and> fst (humanType demo_api (\<lambda>n. lit (2 / 5)) \<lparr>page = demo_home\<lparr>dp_overlay := True\<rparr>, draws = 1\<rparr>)
       = Inl (Error ''locator.click: Timeout 30000ms exceeded'')
   \<and> fst (performRandomAction demo_api demo_platform (\<lambda>n. lit (2 / 5)) ''https://site.example/''
            (demo_state (demo_home\<lparr>dp_overlay := True\<rparr>)))
       = Inl (Error ''locator.click: Timeout 30000ms exceeded'')
   \<and> \<not> returns_normally
         (performRandomAction demo_api demo_platform (\<lambda>n. lit (2 / 5)) ''https://site.example/'')
         (demo_state (demo_home\<lparr>dp_overlay := True\<rparr>))"
proof -
  have h: "fst (humanType demo_api (\<lambda>n. lit (2 / 5)) \<lparr>page = demo_home\<lparr>dp_overlay := True\<rparr>, draws = 1\<rparr>)
       = Inl (Error ''locator.click: Timeout 30000ms exceeded'')"
    by (simp add: humanType_def INPUT_SELECTORS_def SEARCH_TERMS_def bnd_def try_catch_def
      on_page_def ret_def demo_api_def pickRandom_def randomInt_def random_def demo_roll_04
      js_index_def demo_home_def)
  have k: "selected_kind (lit (2 / 5)) = Type"
    by (rule demo_roll_04)
  have p: "fst (performRandomAction demo_api demo_platform (\<lambda>n. lit (2 / 5)) ''https://site.example/''
            (demo_state (demo_home\<lparr>dp_overlay := True\<rparr>)))
       = Inl (Error ''locator.click: Timeout 30000ms exceeded'')"
  proof -
    obtain w' where hw:
      "humanType demo_api (\<lambda>n. lit (2 / 5)) \<lparr>page = demo_home\<lparr>dp_overlay := True\<rparr>, draws = 1\<rparr>
         = (Inl (Error ''locator.click: Timeout 30000ms exceeded''), w')"
      using h
      by (cases "humanType demo_api (\<lambda>n. lit (2 / 5)) \<lparr>page = demo_home\<lparr>dp_overlay := True\<rparr>, draws = 1\<rparr>")
         simp
    show ?thesis
      using hw by (simp add: performRandomAction_dispatch k typeBlock_flag demo_state_def)
  qed
  from k h p show ?thesis by (simp add: returns_normally_def)
qed

lemma guarded_kinds_return:
  assumes "selected_kind (rnd (draws (world ls))) \<in> {Hover, Click, Back, Media, Zoom}"
  shows "returns_normally (performRandomAction api plat rnd cur) ls"
proof -
  let ?w1 = "(world ls)\<lparr>draws := Suc (draws (world ls))\<rparr>"
  obtain c w' where c: "humanClick api ?w1 = (Inr c, w')"
    using humanClick_returns [of api ?w1] by (rule returns_normallyE)
  obtain b w'' where b: "humanBack api rnd ?w1 = (Inr b, w'')"
    using humanBack_returns [of api rnd ?w1] by (rule returns_normallyE)
  show ?thesis
    using assms
    by (auto simp: returns_normally_def performRandomAction_dispatch hoverBlock_flag
        mediaBlock_flag zoomBlock_flag clickBlock_flag backBlock_flag c b)
qed

section \<open>The typing loop\<close>











section \<open>Properties of the session life cycle\<close>





















section \<open>Properties of link collection and fallback navigation\<close>

lemma swap_at_length [simp]: "length (swap_at xs i j) = length xs"
  by (simp add: swap_at_def)

lemma swap_at_mset: "mset (swap_at xs i j) = mset xs"
proof (cases "0 \<le> j \<and> j \<le> int i \<and> i < length xs")
  case True
  then have "nat j < length xs" "i < length xs" by linarith+
  then have "mset (xs[i := xs ! nat j, nat j := xs ! i]) = mset xs"
    by (rule mset_swap [of "nat j" xs i])
  with True show ?thesis by (simp add: swap_at_def)
next
  case False
  then show ?thesis by (auto simp: swap_at_def)
qed

lemma apply_swaps_length [simp]: "length (apply_swaps i js xs) = length xs"
  by (induction i js xs rule: apply_swaps.induct) simp_all

lemma apply_swaps_mset: "mset (apply_swaps i js xs) = mset xs"
  by (induction i js xs rule: apply_swaps.induct) (simp_all add: swap_at_mset)

lemma apply_swaps_set: "set (apply_swaps i js xs) = set xs"
  using apply_swaps_mset [of i js xs] by (metis set_mset_mset)

lemma swap_at_take:
  assumes "i < m"
  shows "swap_at (take m xs) i j = take m (swap_at xs i j)"
proof (cases "0 \<le> j \<and> j \<le> int i \<and> i < length xs")
  case True
  then have a: "nat j < m" using assms by linarith
  from True assms have b: "i < length (take m xs)" by simp
  from True a b assms show ?thesis
    by (simp add: swap_at_def take_update_swap)
next
  case False
  then show ?thesis by (auto simp: swap_at_def)
qed

lemma apply_swaps_take:
  "i < m \<Longrightarrow> apply_swaps i js (take m xs) = take m (apply_swaps i js xs)"
proof (induction i js xs rule: apply_swaps.induct)
  case (1 js xs)
  show ?case by simp
next
  case (2 i xs)
  show ?case by simp
next
  case (3 i j js xs)
  then have "i < m" "Suc i < m" by simp_all
  then show ?case
    using "3.IH" by (simp add: swap_at_take)
qed

lemma apply_swaps_hd:
  assumes "xs \<noteq> []"
  shows "hd (apply_swaps i js xs) = hd (apply_swaps i js (take (Suc i) xs))"
proof -
  have "hd (apply_swaps i js (take (Suc i) xs)) = hd (take (Suc i) (apply_swaps i js xs))"
    by (simp add: apply_swaps_take)
  then show ?thesis by simp
qed

lemma apply_swaps_hd_mem: "xs \<noteq> [] \<Longrightarrow> hd (apply_swaps i js xs) \<in> set xs"
  using apply_swaps_set [of i js xs] apply_swaps_length [of i js xs]
  by (metis hd_in_set length_0_conv)

lemma index_vectors_length: "length (index_vectors i) = fact (Suc i)"
proof (induction i)
  case 0
  show ?case by simp
next
  case (Suc i)
  have "length (index_vectors (Suc i))
          = sum_list (map (\<lambda>j. length (index_vectors i)) [0..<Suc (Suc i)])"
    by (simp add: length_concat comp_def del: upt_Suc)
  also have "\<dots> = Suc (Suc i) * fact (Suc i)"
    by (simp add: Suc.IH sum_list_triv del: upt_Suc fact_Suc)
  finally show ?case by simp
qed

lemma sum_list_indicator:
  "sum_list (map (\<lambda>j. if P j then c else 0) js) = c * length (filter P js)"
  for c :: nat
  by (induction js) simp_all

lemma length_filter_not_eq:
  assumes "distinct xs" and "x \<in> set xs"
  shows "length (filter (\<lambda>y. y \<noteq> x) xs) = length xs - 1"
  using assms
proof (induction xs)
  case Nil
  then show ?case by simp
next
  case (Cons a xs)
  show ?case
  proof (cases "a = x")
    case True
    with Cons.prems have "x \<notin> set xs" by simp
    then have "filter (\<lambda>y. y \<noteq> x) xs = xs" by (auto simp: filter_id_conv)
    with True show ?thesis by simp
  next
    case False
    with Cons.prems have "x \<in> set xs" "distinct xs" by simp_all
    then have "length (filter (\<lambda>y. y \<noteq> x) xs) = length xs - 1" by (rule Cons.IH [rotated])
    moreover from \<open>x \<in> set xs\<close> have "0 < length xs" by (cases xs) simp_all
    ultimately show ?thesis using False by simp
  qed
qed

lemma count_other_indices:
  assumes "distinct xs" and "x \<in> set xs"
  shows "length (filter (\<lambda>j. xs ! j \<noteq> x) [0..<length xs]) = length xs - 1"
proof -
  have "length (filter (\<lambda>j. xs ! j \<noteq> x) [0..<length xs])
          = length (filter (\<lambda>y. y \<noteq> x) (map (nth xs) [0..<length xs]))"
    by (simp add: filter_map comp_def)
  also have "\<dots> = length (filter (\<lambda>y. y \<noteq> x) xs)"
    by (simp only: map_nth)
  finally show ?thesis using assms by (simp add: length_filter_not_eq)
qed

lemma swap_at_last:
  assumes "length xs = Suc n" and "j \<le> n"
  shows "swap_at xs n (int j) ! n = xs ! j"
  using assms by (cases "j = n") (simp_all add: swap_at_def)

lemma swap_then_take_set:
  assumes "distinct xs" and "length xs = Suc n" and "j \<le> n"
  shows "distinct (take n (swap_at xs n (int j)))
       \<and> set (take n (swap_at xs n (int j))) = set xs - {xs ! j}"
proof -
  let ?zs = "swap_at xs n (int j)"
  have len: "length ?zs = Suc n" using assms by simp
  have d: "distinct ?zs"
    using assms(1) swap_at_mset [of xs n "int j"] by (metis mset_eq_imp_distinct_iff)
  have s: "set ?zs = set xs"
    using swap_at_mset [of xs n "int j"] by (metis set_mset_mset)
  have split: "?zs = take n ?zs @ [?zs ! n]"
    using len by (metis lessI take_Suc_conv_app_nth take_all order_refl)
  have last: "?zs ! n = xs ! j" using assms by (simp add: swap_at_last)
  from d split have dz: "distinct (take n ?zs @ [xs ! j])" using last by simp
  then have "distinct (take n ?zs)" "xs ! j \<notin> set (take n ?zs)" by simp_all
  moreover have "set xs = set (take n ?zs) \<union> {xs ! j}"
    using s split last by (metis Un_insert_right list.simps(15) set_append sup_bot.right_neutral
        empty_set)
  ultimately show ?thesis by auto
qed


lemma shuffle_head_count:
  assumes "distinct xs" and "length xs = Suc i"
  shows "length (filter (\<lambda>js. hd (apply_swaps i js xs) = x) (index_vectors i))
           = (if x \<in> set xs then fact i else 0)"
  using assms
proof (induction i arbitrary: xs)
  case 0
  then obtain y where xs: "xs = [y]"
    by (cases xs) simp_all
  then show ?case by auto
next
  case (Suc i)
  let ?n = "Suc (Suc i)"
  let ?ys = "\<lambda>j. take (Suc i) (swap_at xs (Suc i) (int j))"
  let ?P = "\<lambda>js. hd (apply_swaps (Suc i) js xs) = x"
  have ne: "xs \<noteq> []" using Suc.prems by auto
  have per_choice: "length (filter ?P (map ((#) (int j)) (index_vectors i)))
                      = (if x \<in> set xs \<and> xs ! j \<noteq> x then fact i else 0)"
    if j: "j < ?n" for j
  proof -
    from j have jle: "j \<le> Suc i" by simp
    have ys: "distinct (?ys j)" "set (?ys j) = set xs - {xs ! j}"
      using swap_then_take_set [OF Suc.prems(1) Suc.prems(2) jle] by simp_all
    have leny: "length (?ys j) = Suc i" using Suc.prems by simp
    have sne: "swap_at xs (Suc i) (int j) \<noteq> []"
      using ne by (metis length_0_conv swap_at_length)
    have "length (filter ?P (map ((#) (int j)) (index_vectors i)))
            = length (filter (\<lambda>js. hd (apply_swaps i js (swap_at xs (Suc i) (int j))) = x)
                        (index_vectors i))"
      by (simp add: filter_map comp_def)
    also have "\<dots> = length (filter (\<lambda>js. hd (apply_swaps i js (?ys j)) = x) (index_vectors i))"
      using apply_swaps_hd [OF sne, of i] by simp
    also have "\<dots> = (if x \<in> set (?ys j) then fact i else 0)"
      using ys(1) leny by (rule Suc.IH)
    also have "\<dots> = (if x \<in> set xs \<and> xs ! j \<noteq> x then fact i else 0)"
      using ys(2) by auto
    finally show ?thesis .
  qed
  have "length (filter ?P (index_vectors (Suc i)))
          = sum_list (map (\<lambda>j. length (filter ?P (map ((#) (int j)) (index_vectors i)))) [0..<?n])"
    by (simp add: filter_concat length_concat comp_def del: upt_Suc)
  also have "\<dots> = sum_list (map (\<lambda>j. if x \<in> set xs \<and> xs ! j \<noteq> x then fact i else 0) [0..<?n])"
  proof (rule arg_cong [where f = sum_list], rule map_cong [OF refl])
    fix j
    assume "j \<in> set [0..<?n]"
    then have "j < ?n" by (simp only: set_upt atLeastLessThan_iff)
    then show "length (filter ?P (map ((#) (int j)) (index_vectors i)))
                 = (if x \<in> set xs \<and> xs ! j \<noteq> x then fact i else 0)"
      by (rule per_choice)
  qed
  also have "\<dots> = fact i * length (filter (\<lambda>j. x \<in> set xs \<and> xs ! j \<noteq> x) [0..<?n])"
    by (rule sum_list_indicator)
  also have "\<dots> = (if x \<in> set xs then fact (Suc i) else 0)"
  proof (cases "x \<in> set xs")
    case True
    then have "filter (\<lambda>j. x \<in> set xs \<and> xs ! j \<noteq> x) [0..<?n] = filter (\<lambda>j. xs ! j \<noteq> x) [0..<?n]"
      by simp
    moreover have "length (filter (\<lambda>j. xs ! j \<noteq> x) [0..<?n]) = Suc i"
      using count_other_indices [OF Suc.prems(1) True] Suc.prems(2) by simp
    ultimately show ?thesis using True by simp
  next
    case False
    then show ?thesis by simp
  qed
  finally show ?case .
qed

lemma shuffle_from_apply:
  "shuffle_from rnd i xs w
     = (Inr (apply_swaps i (drawn_indices rnd (draws w) i) xs), w\<lparr>draws := draws w + i\<rparr>)"
proof (induction i arbitrary: xs w)
  case 0
  show ?case by (simp add: ret_def)
next
  case (Suc i)
  show ?case
    by (simp add: bnd_def randomInt_apply Suc.IH)
qed

lemma shuffle_apply:
  "shuffle rnd xs w
     = (Inr (apply_swaps (length xs - 1) (drawn_indices rnd (draws w) (length xs - 1)) xs),
        w\<lparr>draws := draws w + (length xs - 1)\<rparr>)"
  by (simp add: shuffle_def shuffle_from_apply)

lemma randomInt_of_index:
  assumes "unit_double r"
  shows "0 \<le> randomInt_of r 0 (int i) \<and> randomInt_of r 0 (int i) \<le> int i"
  using randomInt_of_range [OF assms, of 0 "int i"] by simp

lemma set_map_filter_eq: "set (List.map_filter f xs) = {y. \<exists>x \<in> set xs. f x = Some y}"
  by (induction xs) (auto split: option.splits)

lemma in_concat_map: "j \<in> set js \<Longrightarrow> x \<in> set (f j) \<Longrightarrow> x \<in> set (concat (map f js))"
  by auto

lemma drawn_indices_member:
  assumes "\<And>t. unit_double (rnd t)"
  shows "drawn_indices rnd d i \<in> set (index_vectors i)"
proof (induction i arbitrary: d)
  case 0
  show ?case by simp
next
  case (Suc i)
  let ?k = "randomInt_of (rnd d) 0 (int (Suc i))"
  from randomInt_of_index [OF assms, of d "Suc i"]
  have k: "0 \<le> ?k" "?k \<le> int (Suc i)" by simp_all
  then have j: "nat ?k < Suc (Suc i)" "int (nat ?k) = ?k" by linarith+
  have "drawn_indices rnd d (Suc i) = int (nat ?k) # drawn_indices rnd (Suc d) i"
    using j by simp
  moreover have "drawn_indices rnd (Suc d) i \<in> set (index_vectors i)" by (rule Suc.IH)
  ultimately have x: "drawn_indices rnd d (Suc i)
                     \<in> set (map ((#) (int (nat ?k))) (index_vectors i))"
    by simp
  have m: "nat ?k \<in> set [0..<Suc (Suc i)]"
    using j(1) by (simp only: set_upt atLeastLessThan_iff) simp
  have "drawn_indices rnd d (Suc i)
          \<in> set (concat (map (\<lambda>j. map ((#) (int j)) (index_vectors i)) [0..<Suc (Suc i)]))"
    using m x by (rule in_concat_map [where f = "\<lambda>j. map ((#) (int j)) (index_vectors i)"])
  then show ?case by (simp only: index_vectors.simps)
qed

lemma set_insert_all_set: "set (set_insert_all acc xs) = set acc \<union> set xs"
  by (induction xs arbitrary: acc) auto

lemma set_insert_all_distinct: "distinct acc \<Longrightarrow> distinct (set_insert_all acc xs)"
  by (induction xs arbitrary: acc) auto

lemma set_insert_all_fresh:
  "distinct xs \<Longrightarrow> set xs \<inter> set acc = {} \<Longrightarrow> set_insert_all acc xs = acc @ xs"
  by (induction xs arbitrary: acc) auto

lemma set_insert_all_idem: "set_insert_all [] (set_insert_all [] xs) = set_insert_all [] xs"
  using set_insert_all_fresh [of "set_insert_all [] xs" "[]"] set_insert_all_distinct [of "[]" xs]
  by simp

lemma internal_link_Some:
  "internal_link plat origin href = Some l
     \<longleftrightarrow> (\<exists>u. parseURL plat href = Some u \<and> url_origin u = origin
              \<and> l = origin @ url_pathname u @ url_search u)"
  by (auto simp: internal_link_def split: option.splits)

lemma collect_pure: "snd (collectInternalLinks api plat w) = w"
  by (simp add: collectInternalLinks_def Let_def split: option.splits sum.splits)

lemma collect_links:
  assumes "collectInternalLinks api plat w = (Inr links, w')"
  shows "distinct links \<and> set_insert_all [] links = links
    \<and> (if startsWith (page_url api (page w)) ''http''
        then \<exists>cur hrefs. parseURL plat (page_url api (page w)) = Some cur
               \<and> anchor_hrefs api (page w) = Inr hrefs
               \<and> set links = {l. \<exists>href \<in> set hrefs. internal_link plat (url_origin cur) href = Some l}
        else links = [])"
proof (cases "startsWith (page_url api (page w)) ''http''")
  case False
  with assms show ?thesis by (simp add: collectInternalLinks_def)
next
  case True
  with assms obtain cur hrefs where
    c: "parseURL plat (page_url api (page w)) = Some cur"
    and h: "anchor_hrefs api (page w) = Inr hrefs"
    and l: "links = set_insert_all [] (List.map_filter (internal_link plat (url_origin cur)) hrefs)"
    by (auto simp: collectInternalLinks_def Let_def split: option.splits sum.splits)
  have "set links = {l. \<exists>href \<in> set hrefs. internal_link plat (url_origin cur) href = Some l}"
    unfolding l by (auto simp: set_insert_all_set set_map_filter_eq)
  moreover have "distinct links" unfolding l by (simp add: set_insert_all_distinct)
  moreover have "set_insert_all [] links = links" unfolding l by (rule set_insert_all_idem)
  ultimately show ?thesis using True c h by auto
qed

text \<open>
  The draws that give an index: for a round with the indices \<open>0..i\<close>, a draw that gives \<open>k\<close>
  lies between \<open>k / (i + 1) - 2\<^sup>-\<^sup>5\<^sup>3\<close> and \<open>(k + 1) / (i + 1)\<close>, and every draw from
  \<open>k / (i + 1)\<close> up to \<open>(k + 1) / (i + 1) - 2\<^sup>-\<^sup>5\<^sup>3\<close> gives \<open>k\<close>. The rounding of the product
  moves the ends of the interval by less than \<open>2\<^sup>-\<^sup>5\<^sup>3\<close>.
\<close>

lemma index_draw_bounds:
  assumes "unit_double r" and "int i < 2 ^ 53" and "randomInt_of r 0 (int i) = k"
  shows "of_int k / of_int (int i + 1) - 1 / 2 ^ 53 < r \<and> r < (of_int k + 1) / of_int (int i + 1)"
proof -
  define m :: rat where "m = of_int (int i + 1)"
  define x where "x = r * m"
  have r: "0 \<le> r" "r < 1" using assms(1) by (simp_all add: unit_double_def)
  have m1: "1 \<le> m" by (simp add: m_def)
  have mpos: "0 < m" using m1 by linarith
  have "int i + 1 \<le> 2 ^ 53" using assms(2) by simp
  then have "(of_int (int i + 1) :: rat) \<le> of_int (2 ^ 53)" by (simp only: of_int_le_iff)
  then have m53: "m \<le> 2 ^ 53" by (simp add: m_def)
  have x0: "0 \<le> x" using r(1) mpos by (simp add: x_def)
  have xm: "x < m" using r(2) mpos by (simp add: x_def)
  have x53: "x < 2 ^ 53" using xm m53 by linarith
  have k: "k = \<lfloor>round_double x\<rfloor>"
    using assms(3) by (simp add: randomInt_of_def x_def m_def)
  have up: "x < of_int k + 1" unfolding k using x0 x53 by (rule scaled_floor_below)
  have lo: "of_int k - m / 2 ^ 53 < x" unfolding k using x0 xm m1 by (rule scaled_floor_above)
  have "r < (of_int k + 1) / m"
    using up mpos by (simp add: x_def pos_less_divide_eq)
  moreover have "(of_int k - m / 2 ^ 53) / m < r"
    using lo mpos by (simp add: x_def pos_divide_less_eq)
  moreover have "(of_int k - m / 2 ^ 53) / m = of_int k / m - 1 / 2 ^ 53"
    using mpos by (simp add: diff_divide_distrib)
  ultimately show ?thesis by (simp add: m_def)
qed

lemma index_draw_exact:
  assumes "unit_double r" and "int i < 2 ^ 53"
    and "of_int k / of_int (int i + 1) \<le> r"
    and "r < (of_int k + 1) / of_int (int i + 1) - 1 / 2 ^ 53"
  shows "randomInt_of r 0 (int i) = k"
proof -
  define m :: rat where "m = of_int (int i + 1)"
  define x where "x = r * m"
  have r: "0 \<le> r" "r < 1" using assms(1) by (simp_all add: unit_double_def)
  have m1: "1 \<le> m" by (simp add: m_def)
  have mpos: "0 < m" using m1 by linarith
  have "int i + 1 \<le> 2 ^ 53" using assms(2) by simp
  then have "(of_int (int i + 1) :: rat) \<le> of_int (2 ^ 53)" by (simp only: of_int_le_iff)
  then have m53: "m \<le> 2 ^ 53" by (simp add: m_def)
  have x0: "0 \<le> x" using r(1) mpos by (simp add: x_def)
  have xm: "x < m" using r(2) mpos by (simp add: x_def)
  have x53: "x < 2 ^ 53" using xm m53 by linarith
  have lo: "of_int k \<le> x"
    using assms(3) mpos by (simp add: x_def m_def pos_divide_le_eq)
  have "(of_int k + 1 - m / 2 ^ 53) / m = (of_int k + 1) / m - 1 / 2 ^ 53"
    using mpos by (simp add: diff_divide_distrib)
  moreover have "r < (of_int k + 1) / m - 1 / 2 ^ 53"
    using assms(4) by (simp add: m_def)
  ultimately have "r < (of_int k + 1 - m / 2 ^ 53) / m" by simp
  then have up: "x < of_int k + 1 - m / 2 ^ 53"
    using mpos by (simp add: x_def pos_less_divide_eq)
  have "\<lfloor>round_double x\<rfloor> = k"
    using lo up xm m1 x0 x53 by (rule scaled_floor_eq)
  then show ?thesis by (simp add: randomInt_of_def x_def m_def)
qed

lemma navigate_target:
  assumes c: "collectInternalLinks api plat w = (Inr links, w)"
    and u: "unvisited = filter (\<lambda>url. url \<notin> visited) links"
    and n: "n = length unvisited - 1"
    and t: "target = hd (apply_swaps n (drawn_indices rnd (draws w) n) unvisited)"
  shows "(unvisited = [] \<longrightarrow> navigateToRandomLink api plat rnd visited w = (Inr None, w))
    \<and> (unvisited \<noteq> [] \<longrightarrow>
          target \<in> set unvisited
          \<and> fst (navigateToRandomLink api plat rnd visited w)
              = (case fst (page_goto api target (page w)) of
                   Inl e \<Rightarrow> Inr None | Inr v \<Rightarrow> Inr (Some target)))"
proof (intro conjI impI)
  assume "unvisited = []"
  then show "navigateToRandomLink api plat rnd visited w = (Inr None, w)"
    using c u by (simp add: navigateToRandomLink_def bnd_def ret_def Let_def)
next
  assume ne: "unvisited \<noteq> []"
  let ?sh = "apply_swaps n (drawn_indices rnd (draws w) n) unvisited"
  show "target \<in> set unvisited"
    unfolding t using ne by (rule apply_swaps_hd_mem)
  have shne: "?sh \<noteq> []" using ne by (metis apply_swaps_length length_0_conv)
  then have idx: "js_index ?sh 0 = Some target"
    by (cases ?sh) (simp_all add: js_index_def t)
  obtain g p' where g: "page_goto api target (page w) = (g, p')"
    by (cases "page_goto api target (page w)")
  have "fst (navigateToRandomLink api plat rnd visited w)
          = (case g of Inl e \<Rightarrow> Inr None | Inr v \<Rightarrow> Inr (Some target))"
    using ne idx [unfolded n] g
    by (cases g)
       (simp_all add: navigateToRandomLink_def bnd_def ret_def Let_def c u [symmetric]
          shuffle_apply humanDelay_apply try_catch_def on_page_def)
  then show "fst (navigateToRandomLink api plat rnd visited w)
              = (case fst (page_goto api target (page w)) of
                   Inl e \<Rightarrow> Inr None | Inr v \<Rightarrow> Inr (Some target))"
    by (simp add: g)
qed

lemma demo_collect:
  "collectInternalLinks demo_api demo_platform \<lparr>page = demo_home, draws = 0\<rparr>
     = (Inr [''https://site.example/a?x=1'', ''https://site.example/b''],
        \<lparr>page = demo_home, draws = 0\<rparr>)"
  by (simp add: collectInternalLinks_def demo_api_def demo_home_def demo_platform_def
      demo_url_def startsWith_def internal_link_def Let_def)

lemma demo_goto:
  "fst (page_goto demo_api ''https://site.example/b'' demo_home) = Inr ()"
  by (simp add: demo_api_def)

text \<open>
  Claim C8 (link collection and fallback target). Suppose \<^verbatim>\<open>collectInternalLinks\<close> returns
  the list \<open>links\<close>. It has read the page and changed nothing, neither the page nor the
  random source, so that collecting again on the unchanged page returns the same list. The
  list has no duplicates, and putting it into a \<^verbatim>\<open>Set\<close> again gives it back. On an http
  page its elements are exactly the strings origin + path + query (no hash) of the anchors
  whose \<^verbatim>\<open>href\<close> parses and has the origin of the page; on any other page it is empty.
  \<^verbatim>\<open>navigateToRandomLink\<close> returns \<^verbatim>\<open>null\<close> when every link is visited. Otherwise its
  target is the head of the shuffled unvisited links: a collected link that is not visited,
  returned unless \<^verbatim>\<open>page.goto\<close> throws. The target is drawn uniformly: the shuffle of
  \<open>n + 1\<close> links draws one of \<open>(n + 1)!\<close> index vectors, every unvisited link is the
  target for exactly \<open>n!\<close> of them, and the draws of \<^verbatim>\<open>Math.random()\<close>, doubles in \<open>[0, 1)\<close>,
  give an index vector of these. Every index of a round gets an equal share of the draws,
  as far as doubles allow: the draws giving index \<open>k\<close> of \<open>0..i\<close> are those of the interval
  from \<open>k / (i + 1)\<close> to \<open>(k + 1) / (i + 1)\<close>, whose ends the rounding of the product moves by
  less than \<open>2\<^sup>-\<^sup>5\<^sup>3\<close>.
\<close>

theorem link_collection:
  assumes c: "collectInternalLinks api plat w = (Inr links, w')"
    and u: "unvisited = filter (\<lambda>url. url \<notin> visited) links"
    and n: "n = length unvisited - 1"
    and t: "target = hd (apply_swaps n (drawn_indices rnd (draws w) n) unvisited)"
  shows "w' = w
    \<and> collectInternalLinks api plat w' = (Inr links, w')
    \<and> distinct links
    \<and> set_insert_all [] links = links
    \<and> (if startsWith (page_url api (page w)) ''http''
        then \<exists>cur hrefs. parseURL plat (page_url api (page w)) = Some cur
               \<and> anchor_hrefs api (page w) = Inr hrefs
               \<and> set links
                   = {l. \<exists>href \<in> set hrefs. \<exists>u. parseURL plat href = Some u
                          \<and> url_origin u = url_origin cur
                          \<and> l = url_origin cur @ url_pathname u @ url_search u}
        else links = [])
    \<and> (unvisited = [] \<longrightarrow> navigateToRandomLink api plat rnd visited w = (Inr None, w))
    \<and> (unvisited \<noteq> [] \<longrightarrow>
          target \<in> set links \<and> target \<notin> visited
          \<and> fst (navigateToRandomLink api plat rnd visited w)
              = (case fst (page_goto api target (page w)) of
                   Inl e \<Rightarrow> Inr None | Inr v \<Rightarrow> Inr (Some target))
          \<and> (\<forall>x \<in> set unvisited.
                length (filter (\<lambda>js. hd (apply_swaps n js unvisited) = x) (index_vectors n))
                  = fact n))
    \<and> length (index_vectors n) = fact (Suc n)
    \<and> ((\<forall>d. unit_double (rnd d)) \<longrightarrow> drawn_indices rnd (draws w) n \<in> set (index_vectors n))
    \<and> (\<forall>i r k. unit_double r \<and> int i < 2 ^ 53 \<longrightarrow>
          (randomInt_of r 0 (int i) = k \<longrightarrow>
             0 \<le> k \<and> k \<le> int i
             \<and> of_int k / of_int (int i + 1) - 1 / 2 ^ 53 < r
             \<and> r < (of_int k + 1) / of_int (int i + 1))
          \<and> (of_int k / of_int (int i + 1) \<le> r
               \<and> r < (of_int k + 1) / of_int (int i + 1) - 1 / 2 ^ 53
             \<longrightarrow> randomInt_of r 0 (int i) = k))"
proof -
  have w: "w' = w"
    using c collect_pure [of api plat w] by simp
  have c': "collectInternalLinks api plat w = (Inr links, w)"
    using c w by simp
  from collect_links [OF c]
  have d: "distinct links" and idem: "set_insert_all [] links = links"
    and chr: "if startsWith (page_url api (page w)) ''http''
        then \<exists>cur hrefs. parseURL plat (page_url api (page w)) = Some cur
               \<and> anchor_hrefs api (page w) = Inr hrefs
               \<and> set links = {l. \<exists>href \<in> set hrefs. internal_link plat (url_origin cur) href = Some l}
        else links = []"
    by blast+
  have chr': "if startsWith (page_url api (page w)) ''http''
        then \<exists>cur hrefs. parseURL plat (page_url api (page w)) = Some cur
               \<and> anchor_hrefs api (page w) = Inr hrefs
               \<and> set links
                   = {l. \<exists>href \<in> set hrefs. \<exists>u. parseURL plat href = Some u
                          \<and> url_origin u = url_origin cur
                          \<and> l = url_origin cur @ url_pathname u @ url_search u}
        else links = []"
    using chr by (simp only: internal_link_Some)
  have du: "distinct unvisited" using d u by simp
  have nav: "(unvisited = [] \<longrightarrow> navigateToRandomLink api plat rnd visited w = (Inr None, w))
    \<and> (unvisited \<noteq> [] \<longrightarrow>
          target \<in> set unvisited
          \<and> fst (navigateToRandomLink api plat rnd visited w)
              = (case fst (page_goto api target (page w)) of
                   Inl e \<Rightarrow> Inr None | Inr v \<Rightarrow> Inr (Some target)))"
    using c' u n t by (rule navigate_target)
  have mem: "target \<in> set unvisited \<Longrightarrow> target \<in> set links \<and> target \<notin> visited"
    using u by simp
  have uni: "unvisited \<noteq> [] \<Longrightarrow> \<forall>x \<in> set unvisited.
                length (filter (\<lambda>js. hd (apply_swaps n js unvisited) = x) (index_vectors n))
                  = fact n"
  proof -
    assume "unvisited \<noteq> []"
    then have len: "length unvisited = Suc n" using n by (cases unvisited) simp_all
    show ?thesis
      using shuffle_head_count [OF du len] by simp
  qed
  have vec: "length (index_vectors n) = fact (Suc n)"
    by (rule index_vectors_length)
  have drawn: "(\<forall>d. unit_double (rnd d)) \<longrightarrow> drawn_indices rnd (draws w) n \<in> set (index_vectors n)"
    using drawn_indices_member [of rnd "draws w" n] by blast
  have draws: "\<forall>i r k. unit_double r \<and> int i < 2 ^ 53 \<longrightarrow>
          (randomInt_of r 0 (int i) = k \<longrightarrow>
             0 \<le> k \<and> k \<le> int i
             \<and> of_int k / of_int (int i + 1) - 1 / 2 ^ 53 < r
             \<and> r < (of_int k + 1) / of_int (int i + 1))
          \<and> (of_int k / of_int (int i + 1) \<le> r
               \<and> r < (of_int k + 1) / of_int (int i + 1) - 1 / 2 ^ 53
             \<longrightarrow> randomInt_of r 0 (int i) = k)"
    using randomInt_of_index index_draw_bounds index_draw_exact by blast
  from w c' d idem chr' nav mem uni vec drawn draws show ?thesis
    by (intro conjI) (simp_all only:, blast+)
qed

theorem link_collection_witness:
  "collectInternalLinks demo_api demo_platform \<lparr>page = demo_home, draws = 0\<rparr>
     = (Inr [''https://site.example/a?x=1'', ''https://site.example/b''],
        \<lparr>page = demo_home, draws = 0\<rparr>)
   \<and> hd (apply_swaps 1 (drawn_indices (\<lambda>n. 0) 0 1)
            [''https://site.example/a?x=1'', ''https://site.example/b''])
     = ''https://site.example/b''
   \<and> fst (navigateToRandomLink demo_api demo_platform (\<lambda>n. 0) {''https://site.example/''}
            \<lparr>page = demo_home, draws = 0\<rparr>)
     = Inr (Some ''https://site.example/b'')
   \<and> length (filter (\<lambda>js. hd (apply_swaps 1 js
                [''https://site.example/a?x=1'', ''https://site.example/b''])
              = ''https://site.example/b'') (index_vectors 1)) = 1
   \<and> unit_double 0
   \<and> drawn_indices (\<lambda>n. 0) 0 1 \<in> set (index_vectors 1)"
proof -
  let ?links = "[''https://site.example/a?x=1'', ''https://site.example/b'']"
  let ?w = "\<lparr>page = demo_home, draws = 0\<rparr>"
  have u: "filter (\<lambda>url. url \<notin> {''https://site.example/''}) ?links = ?links"
    by simp
  have n: "length ?links - 1 = 1"
    by simp
  have t: "hd (apply_swaps 1 (drawn_indices (\<lambda>n. 0) 0 1) ?links) = ''https://site.example/b''"
    by (simp add: randomInt_of_def round_double_def swap_at_def)
  have ne: "filter (\<lambda>url. url \<notin> {''https://site.example/''}) ?links \<noteq> []"
    by simp
  note inst = link_collection [OF demo_collect refl refl refl,
      of "{''https://site.example/''}" "\<lambda>n. 0"]
  note found = inst [THEN conjunct2, THEN conjunct2, THEN conjunct2, THEN conjunct2,
      THEN conjunct2, THEN conjunct2, THEN conjunct1, THEN mp, OF ne]
  have nav: "fst (navigateToRandomLink demo_api demo_platform (\<lambda>n. 0) {''https://site.example/''} ?w)
     = Inr (Some ''https://site.example/b'')"
    using found [THEN conjunct2, THEN conjunct2, THEN conjunct1] demo_goto
    by (simp only: u n t world.simps sum.case)
  have "\<forall>x \<in> set ?links.
          length (filter (\<lambda>js. hd (apply_swaps 1 js ?links) = x) (index_vectors 1)) = fact 1"
    using found [THEN conjunct2, THEN conjunct2, THEN conjunct2]
    by (simp only: u n)
  then have cnt: "length (filter (\<lambda>js. hd (apply_swaps 1 js ?links) = ''https://site.example/b'')
               (index_vectors 1)) = 1"
    by simp
  have z: "unit_double 0"
    using unit_double_dyadic [of 0 0] by simp
  then have "\<forall>d. unit_double ((\<lambda>n::nat. 0 :: rat) d)" by simp
  from inst [THEN conjunct2, THEN conjunct2, THEN conjunct2, THEN conjunct2,
      THEN conjunct2, THEN conjunct2, THEN conjunct2, THEN conjunct2, THEN conjunct1,
      THEN mp, OF this]
  have vec: "drawn_indices (\<lambda>n. 0) 0 1 \<in> set (index_vectors 1)"
    by (simp only: u n world.simps)
  from demo_collect t nav cnt z vec show ?thesis by blast
qed

section \<open>The reading time stays within its clamp\<close>

text \<open>
  Whatever sample the Gaussian helper returns, the duration \<^verbatim>\<open>simulateReading\<close> runs for
  lies between 3000 and 12000 milliseconds: the bound comes from the clamp alone and does not
  depend on the draws. In particular it holds for the samples of mean 6000 and standard
  deviation 2000. A draw \<open>u1 = 1\<close> gives the mean itself. How the samples are distributed
  (their average over many draws) is a property of the random source and is not a statement
  about a single run of the function.
\<close>

lemma reading_duration_bounds: "3000 \<le> reading_duration z \<and> reading_duration z \<le> 12000"
  by (simp add: reading_duration_def)

lemma reading_duration_gaussian:
  "3000 \<le> reading_duration (gaussianRandom 6000 2000 u1 u2) \<and>
   reading_duration (gaussianRandom 6000 2000 u1 u2) \<le> 12000"
  by (simp add: reading_duration_def)

lemma gaussianRandom_at_one: "gaussianRandom mean stddev 1 u2 = mean"
  by (simp add: gaussianRandom_def)

lemma reading_duration_mean: "reading_duration (gaussianRandom 6000 2000 1 u2) = 6000"
  by (simp add: gaussianRandom_def reading_duration_def)


end
